theory Spec2Isabelle
  imports Complex_Main
begin

section \<open>Data model\<close>

text \<open>
  A point of the trace, as \<open>SwcParser.extractPoints\<close> produces it: the array
  \<open>[id, type, x, y, z, radius, parentId]\<close>. Identifiers and type codes are integers,
  coordinates and radii are real numbers (the rounding of IEEE doubles is not modelled).
\<close>

record point =
  p_id :: int
  p_type :: int
  p_x :: real
  p_y :: real
  p_z :: real
  p_radius :: real
  p_parentId :: int

type_synonym position = "real \<times> real \<times> real"

text \<open>
  A \<open>TreeNode\<close> object. Nodes refer to each other (\<open>_parent\<close>, \<open>_children\<close>), so the
  objects live in a heap: a list of nodes in allocation order, a reference being the index
  of the object.
\<close>

record TreeNode =
  n_id :: int
  n_type :: int
  n_position :: position
  n_radius :: real
  n_parent :: "nat option"
  n_children :: "nat list"
  n_hasSomaChildren :: bool

type_synonym heap = "TreeNode list"

datatype error = TypeError

text \<open>
  The outcome of a call: \<open>None\<close> when the call never returns, \<open>Some (Inl e)\<close> when it
  throws \<open>e\<close>, \<open>Some (Inr v)\<close> when it returns \<open>v\<close>.
\<close>

type_synonym 'a outcome = "(error + 'a) option"

section \<open>Constants.js\<close>

text \<open>
  \<open>Constants.js\<close> declares the table \<open>SWC_TYPES = { UNDEFINED: 0, SOMA: 1, ... }\<close> and
  ends with \<open>export default ({ SWC_TYPES })\<close>: its default export is an object whose only
  property is named \<open>SWC_TYPES\<close>. \<open>TreeNode.js\<close> and \<open>TreeNodeCollection.js\<close> bind that
  default export to the name \<open>SWC_TYPES\<close> (\<open>import SWC_TYPES from './Constants'\<close>) and read
  \<open>SWC_TYPES.SOMA\<close>, a property the wrapper object does not have. The bundles under
  \<open>dist/\<close> and \<open>es/\<close> show the same: \<open>var SWC_TYPES$1 = ({ SWC_TYPES })\<close> and then
  \<open>this._type === SWC_TYPES$1.SOMA\<close>. The expression \<open>SWC_TYPES.SOMA\<close> is therefore
  \<open>undefined\<close>, written \<open>None\<close>; \<open>SWC_TYPES_table_SOMA\<close> is the entry of the inner table.

  Every function below that reads \<open>SWC_TYPES.SOMA\<close> takes its value as the argument
  \<open>soma\<close>, so that each result says which value it depends on; the program runs them
  with \<open>SWC_TYPES_SOMA\<close>.
\<close>

definition SWC_TYPES_SOMA :: "int option" where
  "SWC_TYPES_SOMA = None"

definition SWC_TYPES_table_SOMA :: "int option" where
  "SWC_TYPES_table_SOMA = Some 1"

section \<open>TreeNode.js\<close>

definition newTreeNode :: "int \<Rightarrow> int \<Rightarrow> real \<Rightarrow> real \<Rightarrow> real \<Rightarrow> real \<Rightarrow> TreeNode" where
  "newTreeNode i t x y z r =
     \<lparr>n_id = i, n_type = t, n_position = (x, y, z), n_radius = r,
      n_parent = None, n_children = [], n_hasSomaChildren = False\<rparr>"

text \<open>\<open>isSoma\<close>: \<open>this._type === SWC_TYPES.SOMA\<close>.\<close>

definition isSoma :: "int option \<Rightarrow> TreeNode \<Rightarrow> bool" where
  "isSoma soma n = (Some (n_type n) = soma)"

definition doesAlreadyHaveChild :: "heap \<Rightarrow> nat \<Rightarrow> nat \<Rightarrow> bool" where
  "doesAlreadyHaveChild h this c =
     (\<exists>k \<in> set (n_children (h ! this)). n_id (h ! k) = n_id (h ! c))"

definition addChild :: "int option \<Rightarrow> heap \<Rightarrow> nat \<Rightarrow> nat \<Rightarrow> heap" where
  "addChild soma h this c =
     (if \<not> doesAlreadyHaveChild h this c
      then h[this := (h ! this)
               \<lparr>n_children := n_children (h ! this) @ [c],
                n_hasSomaChildren := (isSoma soma (h ! c) \<or> n_hasSomaChildren (h ! this))\<rparr>]
      else h)"

text \<open>\<open>setParent\<close>: \<open>this._parent = pNode\<close>, then \<open>pNode._addChild(this)\<close>.\<close>

definition setParent :: "int option \<Rightarrow> heap \<Rightarrow> nat \<Rightarrow> nat \<Rightarrow> heap" where
  "setParent soma h this pNode =
     addChild soma (h[this := (h ! this)\<lparr>n_parent := Some pNode\<rparr>]) pNode this"

text \<open>
  The loop of \<open>getNonSomaChildren\<close>,
  \<open>for (let i = 0; i < this._children.length; i += 0)\<close>: the index is advanced by 0.
\<close>

partial_function (option) nonSomaLoop ::
  "int option \<Rightarrow> heap \<Rightarrow> nat list \<Rightarrow> nat \<Rightarrow> nat list \<Rightarrow> nat list option" where
  "nonSomaLoop soma h children i nonSomaChildren =
     (if i < length children
      then (if \<not> isSoma soma (h ! (children ! i))
            then nonSomaLoop soma h children (i + 0) (nonSomaChildren @ [children ! i])
            else nonSomaLoop soma h children (i + 0) nonSomaChildren)
      else Some nonSomaChildren)"

definition getNonSomaChildren :: "int option \<Rightarrow> heap \<Rightarrow> nat \<Rightarrow> nat list option" where
  "getNonSomaChildren soma h this =
     (if \<not> n_hasSomaChildren (h ! this) then Some (n_children (h ! this))
      else nonSomaLoop soma h (n_children (h ! this)) 0 [])"

text \<open>
  \<open>dive\<close> pushes the nodes it walks onto the caller's \<open>nodeList\<close>; the model returns
  the forking directions together with the extended list.
\<close>

partial_function (option) dive ::
  "int option \<Rightarrow> heap \<Rightarrow> nat \<Rightarrow> nat list \<Rightarrow> (nat list \<times> nat list) option" where
  "dive soma h this nodeList =
     (case getNonSomaChildren soma h this of
        None \<Rightarrow> None
      | Some children \<Rightarrow>
          if length children = 1
          then (if n_type (h ! (children ! 0)) = n_type (h ! this)
                then dive soma h (children ! 0) (nodeList @ [this])
                else Some ([], nodeList @ [this]))
          else Some (children, nodeList @ [this]))"

section \<open>TreeNodeCollection.js\<close>

text \<open>
  \<open>this._nodes\<close> is a plain object keyed by point id: an association list in insertion
  order, an assignment to a key already present keeping its place. \<open>Object.keys\<close>
  lists the keys that are array indices (integers from 0 to \<open>2^32 - 2\<close>) in ascending
  order first, then the other keys in insertion order.
\<close>

type_synonym registry = "(int \<times> nat) list"

fun registryPut :: "int \<Rightarrow> nat \<Rightarrow> registry \<Rightarrow> registry" where
  "registryPut k a [] = [(k, a)]"
| "registryPut k a ((k', a') # r) =
     (if k' = k then (k, a) # r else (k', a') # registryPut k a r)"

definition isArrayIndex :: "int \<Rightarrow> bool" where
  "isArrayIndex k = (0 \<le> k \<and> k < 4294967295)"

definition Object_keys :: "registry \<Rightarrow> int list" where
  "Object_keys r =
     sort (filter isArrayIndex (map fst r)) @ filter (\<lambda>k. \<not> isArrayIndex k) (map fst r)"

record rawSoma =
  rs_id :: nat
  rs_type :: string
  rs_radius :: real
  rs_points :: "position list"

record rawSection =
  sec_typevalue :: int
  sec_typename :: "string option"
  sec_points :: "(position \<times> real) list"
  sec_id :: nat
  sec_children :: "nat list"
  sec_parent :: "nat option"

record rawMorphology =
  raw_soma :: "rawSoma option"
  raw_sections :: "rawSection list option"

text \<open>\<open>Math.max\<close> of a non-empty argument list.\<close>

definition Math_max :: "real list \<Rightarrow> real" where
  "Math_max rs = fold max (tl rs) (hd rs)"

text \<open>
  The loop of \<open>_initCollection\<close>. The points array may have empty slots (\<open>None\<close>):
  reading \<open>points[i][0]\<close> there throws. The node is registered under its id before its
  parent is looked up; a parent id that is not registered gives \<open>undefined\<close>, and
  \<open>setParent(undefined)\<close> throws at \<open>pNode._addChild\<close>.
\<close>

fun initLoop ::
  "int option \<Rightarrow> point option list \<Rightarrow> registry \<times> heap \<times> nat list \<Rightarrow>
   error + (registry \<times> heap \<times> nat list)" where
  "initLoop soma [] st = Inr st"
| "initLoop soma (None # ps) st = Inl TypeError"
| "initLoop soma (Some p # ps) (nodes, h, somaNodes) =
     (let aNode = length h;
          h1 = h @ [newTreeNode (p_id p) (p_type p) (p_x p) (p_y p) (p_z p) (p_radius p)];
          nodes1 = registryPut (p_id p) aNode nodes;
          somaNodes1 = (if Some (p_type p) = soma then somaNodes @ [aNode] else somaNodes)
      in if p_parentId p = - 1 then initLoop soma ps (nodes1, h1, somaNodes1)
         else (case map_of nodes1 (p_parentId p) of
                 None \<Rightarrow> Inl TypeError
               | Some theParentNode \<Rightarrow>
                   initLoop soma ps (nodes1, setParent soma h1 aNode theParentNode, somaNodes1)))"

definition makeRawSoma :: "heap \<Rightarrow> nat list \<Rightarrow> rawSoma option" where
  "makeRawSoma h somaNodes =
     (if somaNodes \<noteq> []
      then Some \<lparr>rs_id = 0, rs_type = ''soma'',
                 rs_radius = Math_max (map (\<lambda>n. n_radius (h ! n)) somaNodes),
                 rs_points = map (\<lambda>n. n_position (h ! n)) somaNodes\<rparr>
      else None)"

definition initCollection ::
  "int option \<Rightarrow> point option list \<Rightarrow> error + (registry \<times> heap \<times> rawSoma option)" where
  "initCollection soma points =
     (case initLoop soma points ([], [], []) of
        Inl e \<Rightarrow> Inl e
      | Inr (nodes, h, somaNodes) \<Rightarrow> Inr (nodes, h, makeRawSoma h somaNodes))"

text \<open>
  The search of \<open>_buildSections\<close> for the first node, in the order of \<open>Object.keys\<close>,
  that has non-soma children.
\<close>

fun findFirstValid ::
  "int option \<Rightarrow> heap \<Rightarrow> registry \<Rightarrow> int list \<Rightarrow> (nat \<times> nat list) option outcome" where
  "findFirstValid soma h nodes [] = Some (Inr None)"
| "findFirstValid soma h nodes (nodeId # ids) =
     (case map_of nodes nodeId of
        None \<Rightarrow> Some (Inl TypeError)
      | Some n \<Rightarrow>
          (case getNonSomaChildren soma h n of
             None \<Rightarrow> None
           | Some childrenOfNode \<Rightarrow>
               if length childrenOfNode > 0 then Some (Inr (Some (n, childrenOfNode)))
               else findFirstValid soma h nodes ids))"

text \<open>
  The state that \<open>buildRawSection\<close> closes over: the \<open>sections\<close> built so far, the work
  \<open>stack\<close> (its top is the last element) and \<open>currentSectionId\<close>.
\<close>

type_synonym work = "nat \<times> nat option"
type_synonym build_state = "rawSection list \<times> work list \<times> nat"

text \<open>\<open>if (parentSectionId)\<close>: \<open>null\<close> and \<open>0\<close> are both falsy.\<close>

definition truthy :: "nat option \<Rightarrow> bool" where
  "truthy v = (case v of None \<Rightarrow> False | Some k \<Rightarrow> k \<noteq> 0)"

definition zeroFirstRadius :: "(position \<times> real) list \<Rightarrow> (position \<times> real) list" where
  "zeroFirstRadius points = points[0 := (fst (points ! 0), 0)]"

definition pushChild :: "rawSection list \<Rightarrow> nat \<Rightarrow> nat \<Rightarrow> error + rawSection list" where
  "pushChild sections parentSectionId c =
     (if parentSectionId < length sections
      then Inr (sections[parentSectionId := (sections ! parentSectionId)
                  \<lparr>sec_children := sec_children (sections ! parentSectionId) @ [c]\<rparr>])
      else Inl TypeError)"

definition buildRawSection ::
  "int option \<Rightarrow> heap \<Rightarrow> nat \<Rightarrow> nat option \<Rightarrow> build_state \<Rightarrow>
   (rawSection \<times> build_state) outcome" where
  "buildRawSection soma h startingNode parentSectionId st =
     (case st of (sections, stack, currentSectionId) \<Rightarrow>
      (case dive soma h startingNode
              (case n_parent (h ! startingNode) of Some p \<Rightarrow> [p] | None \<Rightarrow> []) of
         None \<Rightarrow> None
       | Some (nextNodes, nodeList) \<Rightarrow>
           (let points0 = map (\<lambda>n. (n_position (h ! n), n_radius (h ! n))) nodeList;
                points = (if parentSectionId = None \<and> points0 \<noteq> []
                          then zeroFirstRadius points0 else points0);
                section = \<lparr>sec_typevalue = n_type (h ! startingNode), sec_typename = None,
                           sec_points = points, sec_id = currentSectionId,
                           sec_children = [], sec_parent = parentSectionId\<rparr>;
                stack1 = stack @ map (\<lambda>n. (n, Some currentSectionId)) nextNodes
            in if truthy parentSectionId
               then (case pushChild sections (the parentSectionId) currentSectionId of
                       Inl e \<Rightarrow> Some (Inl e)
                     | Inr sections1 \<Rightarrow>
                         Some (Inr (section, sections1, stack1, currentSectionId + 1)))
               else Some (Inr (section, sections, stack1, currentSectionId + 1)))))"

text \<open>
  The loop \<open>while (stack.length)\<close>: pop, build, \<open>sections.push(section)\<close> and
  \<open>sections[section.id] = section\<close>. The section's id is the index it was just pushed
  at (see \<open>assignment_at_pushed_index\<close>), so the assignment stays inside the array.
\<close>

partial_function (option) popLoop ::
  "int option \<Rightarrow> heap \<Rightarrow> build_state \<Rightarrow> (error + rawSection list) option" where
  "popLoop soma h st =
     (case st of (sections, stack, currentSectionId) \<Rightarrow>
      if stack = [] then Some (Inr sections)
      else (case buildRawSection soma h (fst (last stack)) (snd (last stack))
                   (sections, butlast stack, currentSectionId) of
              None \<Rightarrow> None
            | Some (Inl e) \<Rightarrow> Some (Inl e)
            | Some (Inr (section, sections1, stack1, currentSectionId1)) \<Rightarrow>
                popLoop soma h
                  ((sections1 @ [section])[sec_id section := section], stack1,
                   currentSectionId1)))"

text \<open>\<open>_buildSections\<close> returns the new value of \<open>this._rawSections\<close>.\<close>

definition buildSections ::
  "int option \<Rightarrow> heap \<Rightarrow> registry \<Rightarrow> rawSection list option outcome" where
  "buildSections soma h nodes =
     (case findFirstValid soma h nodes (Object_keys nodes) of
        None \<Rightarrow> None
      | Some (Inl e) \<Rightarrow> Some (Inl e)
      | Some (Inr None) \<Rightarrow> Some (Inr None)
      | Some (Inr (Some (firstValidNode, firstValidChildren))) \<Rightarrow>
          (case popLoop soma h ([], map (\<lambda>n. (n, None)) firstValidChildren, 0) of
             None \<Rightarrow> None
           | Some (Inl e) \<Rightarrow> Some (Inl e)
           | Some (Inr sections) \<Rightarrow>
               Some (Inr (if sections \<noteq> [] then Some sections else None))))"

section \<open>morphologycorejs: Soma.js, Section.js and Morphology.js\<close>

record Soma =
  soma_id :: nat
  soma_points :: "position list"
  soma_radius :: real

text \<open>\<open>Soma.initWithRawSection\<close>, on a raw soma that is present.\<close>

definition Soma_initWithRawSection :: "rawSoma \<Rightarrow> Soma" where
  "Soma_initWithRawSection r =
     \<lparr>soma_id = rs_id r, soma_points = rs_points r, soma_radius = rs_radius r\<rparr>"

text \<open>
  \<open>Soma.getCenter\<close>: a copy of the single point, the average of several points,
  \<open>null\<close> when there is none.
\<close>

definition Soma_getCenter :: "Soma \<Rightarrow> position option" where
  "Soma_getCenter s =
     (let nbPoints = length (soma_points s)
      in if nbPoints = 1 then Some (soma_points s ! 0)
         else if nbPoints > 1
         then Some (sum_list (map fst (soma_points s)) / real nbPoints,
                    sum_list (map (fst \<circ> snd) (soma_points s)) / real nbPoints,
                    sum_list (map (snd \<circ> snd) (soma_points s)) / real nbPoints)
         else None)"

record Section =
  s_id :: nat
  s_parent :: "nat option"
  s_children :: "nat list"
  s_typename :: "string option"
  s_typevalue :: "int option"
  s_points :: "position list"
  s_radiuses :: "real list"

definition TYPEVALUE_2_TYPENAME :: "int \<Rightarrow> string option" where
  "TYPEVALUE_2_TYPENAME v =
     (if v = 0 then Some ''undefined'' else if v = 1 then Some ''soma''
      else if v = 2 then Some ''axon'' else if v = 3 then Some ''basal_dendrite''
      else if v = 4 then Some ''apical_dendrite'' else if v = 5 then Some ''custom''
      else None)"

definition TYPENAME_2_TYPEVALUE :: "string \<Rightarrow> int option" where
  "TYPENAME_2_TYPEVALUE n =
     (if n = ''undefined'' then Some 0 else if n = ''soma'' then Some 1
      else if n = ''axon'' then Some 2 else if n = ''basal_dendrite'' then Some 3
      else if n = ''apical_dendrite'' then Some 4 else if n = ''custom'' then Some 5
      else None)"

text \<open>
  \<open>Section.initWithRawSection\<close>. The type fields are filled only when the raw name or
  the raw value is truthy (a non-empty name, a value other than 0).
\<close>

definition Section_initWithRawSection :: "rawSection \<Rightarrow> Section" where
  "Section_initWithRawSection r =
     (let nameTruthy = (case sec_typename r of None \<Rightarrow> False | Some n \<Rightarrow> n \<noteq> []);
          valueTruthy = (sec_typevalue r \<noteq> 0)
      in \<lparr>s_id = sec_id r, s_parent = None, s_children = [],
          s_typename =
            (if nameTruthy then sec_typename r
             else if valueTruthy then TYPEVALUE_2_TYPENAME (sec_typevalue r) else None),
          s_typevalue =
            (if valueTruthy then Some (sec_typevalue r)
             else if nameTruthy then TYPENAME_2_TYPEVALUE (the (sec_typename r)) else None),
          s_points = map fst (sec_points r),
          s_radiuses = map snd (sec_points r)\<rparr>)"

text \<open>
  A \<open>Morphology\<close> object: \<open>_sections\<close>, keyed by section id, and \<open>_soma\<close>. Sections
  refer to each other through their keys.
\<close>

record Morphology =
  m_sections :: "(nat \<times> Section) list"
  m_soma :: "Soma option"

definition newMorphology :: Morphology where
  "newMorphology = \<lparr>m_sections = [], m_soma = None\<rparr>"

fun sectionsPut :: "nat \<Rightarrow> Section \<Rightarrow> (nat \<times> Section) list \<Rightarrow> (nat \<times> Section) list" where
  "sectionsPut k s [] = [(k, s)]"
| "sectionsPut k s ((k', s') # r) =
     (if k' = k then (k, s) # r else (k', s') # sectionsPut k s r)"

text \<open>
  \<open>Section.setParent\<close> refuses \<open>undefined\<close> and the section itself;
  \<open>Section.addChild\<close> reads the id of its argument, which throws on \<open>undefined\<close>, and
  refuses the section itself and a child already present.
\<close>

definition Section_setParent :: "Section \<Rightarrow> Section option \<Rightarrow> Section" where
  "Section_setParent this section =
     (case section of
        None \<Rightarrow> this
      | Some s \<Rightarrow> if s_id s \<noteq> s_id this then this\<lparr>s_parent := Some (s_id s)\<rparr> else this)"

definition Section_addChild :: "Section \<Rightarrow> Section option \<Rightarrow> error + Section" where
  "Section_addChild this section =
     (case section of
        None \<Rightarrow> Inl TypeError
      | Some s \<Rightarrow>
          if s_id s \<noteq> s_id this
          then (if s_id s \<in> set (s_children this) then Inr this
                else Inr (this\<lparr>s_children := s_children this @ [s_id s]\<rparr>))
          else Inr this)"

fun addChildren ::
  "(nat \<times> Section) list \<Rightarrow> nat \<Rightarrow> nat list \<Rightarrow> error + (nat \<times> Section) list" where
  "addChildren secs cur [] = Inr secs"
| "addChildren secs cur (c # cs) =
     (case map_of secs cur of
        None \<Rightarrow> Inl TypeError
      | Some this \<Rightarrow>
          (case Section_addChild this (map_of secs c) of
             Inl e \<Rightarrow> Inl e
           | Inr this1 \<Rightarrow> addChildren (sectionsPut cur this1 secs) cur cs))"

text \<open>The second loop of \<open>buildFromRawMorphology\<close>: parents and children.\<close>

fun linkSections ::
  "(nat \<times> Section) list \<Rightarrow> rawSection list \<Rightarrow> error + (nat \<times> Section) list" where
  "linkSections secs [] = Inr secs"
| "linkSections secs (r # rs) =
     (case map_of secs (sec_id r) of
        None \<Rightarrow> Inl TypeError
      | Some currentSection \<Rightarrow>
          (let secs1 =
                 (case sec_parent r of
                    None \<Rightarrow> secs
                  | Some p \<Rightarrow>
                      sectionsPut (sec_id r)
                        (Section_setParent currentSection (map_of secs p)) secs)
           in case addChildren secs1 (sec_id r) (sec_children r) of
                Inl e \<Rightarrow> Inl e
              | Inr secs2 \<Rightarrow> linkSections secs2 rs))"

text \<open>
  \<open>Morphology.buildFromRawMorphology\<close>. Reading \<open>rawMorphology.sections.length\<close>
  throws when \<open>sections\<close> is \<open>null\<close>.
\<close>

definition buildFromRawMorphology :: "Morphology \<Rightarrow> rawMorphology \<Rightarrow> error + Morphology" where
  "buildFromRawMorphology m raw =
     (let m1 = (case raw_soma raw of
                  None \<Rightarrow> m
                | Some r \<Rightarrow> m\<lparr>m_soma := Some (Soma_initWithRawSection r)\<rparr>)
      in case raw_sections raw of
           None \<Rightarrow> Inl TypeError
         | Some sections \<Rightarrow>
             (let secs1 = fold (\<lambda>r acc. sectionsPut (sec_id r) (Section_initWithRawSection r) acc)
                            sections (m_sections m1)
              in case linkSections secs1 sections of
                   Inl e \<Rightarrow> Inl e
                 | Inr secs2 \<Rightarrow> Inr (m1\<lparr>m_sections := secs2\<rparr>)))"

text \<open>
  \<open>_sections\<close> is a plain object (\<open>this._sections = {}\<close>). Its own properties are
  the sections, each under the property key of its id: \<open>ToString\<close> of the number, the
  decimal numeral for the ids of a parse (natural numbers below \<open>10^21\<close>). Besides, a
  plain object inherits the properties of \<open>Object.prototype\<close>, whose names are listed
  in \<open>Object_prototype\<close>. Both \<open>key in obj\<close> (\<open>hasProperty\<close>) and \<open>obj[key]\<close>
  (\<open>getProperty\<close>) look at the own properties first and then at the inherited ones.
\<close>

fun ToString :: "nat \<Rightarrow> string" where
  "ToString n =
     (if n < 10 then [char_of (48 + n)]
      else ToString (n div 10) @ [char_of (48 + n mod 10)])"

declare ToString.simps [simp del]

definition Object_prototype :: "string list" where
  "Object_prototype =
     [''constructor'', ''__defineGetter__'', ''__defineSetter__'', ''hasOwnProperty'',
      ''__lookupGetter__'', ''__lookupSetter__'', ''isPrototypeOf'',
      ''propertyIsEnumerable'', ''toString'', ''valueOf'', ''__proto__'',
      ''toLocaleString'']"

text \<open>
  A value read from \<open>_sections\<close>: a section, the value of the property of
  \<open>Object.prototype\<close> with the given name (a function, or the prototype itself for
  \<open>__proto__\<close>), or \<open>undefined\<close>.
\<close>

datatype property = SectionObject Section | Inherited string | Undefined

definition hasProperty :: "(nat \<times> Section) list \<Rightarrow> string \<Rightarrow> bool" where
  "hasProperty obj key =
     (key \<in> set (map (ToString \<circ> fst) obj) \<or> key \<in> set Object_prototype)"

definition getProperty :: "(nat \<times> Section) list \<Rightarrow> string \<Rightarrow> property" where
  "getProperty obj key =
     (case find (\<lambda>(k, s). ToString k = key) obj of
        Some (k, s) \<Rightarrow> SectionObject s
      | None \<Rightarrow> if key \<in> set Object_prototype then Inherited key else Undefined)"

text \<open>
  \<open>Morphology.getSection\<close>, documented as taking an id that is a string or a number and
  returning \<open>the requested section or null if the id is invalid\<close>:
  \<open>if (id in this._sections) return this._sections[id]\<close>, else \<open>return null\<close>
  (\<open>None\<close>). The id enters only as a property key, so the argument of the model is the
  key: the string itself, or \<open>ToString\<close> of the number.
\<close>

definition getSection :: "Morphology \<Rightarrow> string \<Rightarrow> property option" where
  "getSection m key =
     (if hasProperty (m_sections m) key then Some (getProperty (m_sections m) key)
      else None)"

definition getSoma :: "Morphology \<Rightarrow> Soma option" where
  "getSoma m = m_soma m"

section \<open>The constructor of TreeNodeCollection and SwcParser.parse\<close>

record collection =
  c_rawMorphology :: "rawMorphology option"
  c_morphology :: "Morphology option"

text \<open>
  \<open>_buildMorphologyObjects\<close>: nothing is assembled when there is neither a soma nor a
  section; otherwise the raw morphology is handed to \<open>buildFromRawMorphology\<close>.
\<close>

definition buildMorphologyObjects ::
  "rawSoma option \<Rightarrow> rawSection list option \<Rightarrow> error + collection" where
  "buildMorphologyObjects rawSoma rawSections =
     (if rawSections = None \<and> rawSoma = None
      then Inr \<lparr>c_rawMorphology = None, c_morphology = None\<rparr>
      else (let raw = \<lparr>raw_soma = rawSoma, raw_sections = rawSections\<rparr>
            in case buildFromRawMorphology newMorphology raw of
                 Inl e \<Rightarrow> Inl e
               | Inr m \<Rightarrow> Inr \<lparr>c_rawMorphology = Some raw, c_morphology = Some m\<rparr>))"

definition TreeNodeCollection :: "int option \<Rightarrow> point option list \<Rightarrow> collection outcome" where
  "TreeNodeCollection soma points =
     (case initCollection soma points of
        Inl e \<Rightarrow> Some (Inl e)
      | Inr (nodes, h, rawSoma) \<Rightarrow>
          (case buildSections soma h nodes of
             None \<Rightarrow> None
           | Some (Inl e) \<Rightarrow> Some (Inl e)
           | Some (Inr rawSections) \<Rightarrow> Some (buildMorphologyObjects rawSoma rawSections)))"

text \<open>
  \<open>SwcParser.parse\<close> on points already extracted, with the value of
  \<open>SWC_TYPES.SOMA\<close> that the program has. When the constructor throws, the exception
  leaves \<open>parse\<close> and the parser keeps the \<open>null\<close> it stored in \<open>_morphology\<close> and
  \<open>_rawMorphology\<close> on entry.
\<close>

definition parsePoints :: "point option list \<Rightarrow> collection outcome" where
  "parsePoints points = TreeNodeCollection SWC_TYPES_SOMA points"

text \<open>The point \<open>[i, t, x, y, z, r, parent]\<close> in a filled slot of the points array.\<close>

definition swcPoint ::
  "int \<Rightarrow> int \<Rightarrow> real \<Rightarrow> real \<Rightarrow> real \<Rightarrow> real \<Rightarrow> int \<Rightarrow> point option" where
  "swcPoint i t x y z r parent =
     Some \<lparr>p_id = i, p_type = t, p_x = x, p_y = y, p_z = z, p_radius = r,
           p_parentId = parent\<rparr>"

text \<open>What a caller reads back after a parse: the raw sections and the morphology.\<close>

definition rawSectionsOf :: "collection outcome \<Rightarrow> rawSection list option" where
  "rawSectionsOf r =
     (case r of
        Some (Inr c) \<Rightarrow>
          (case c_rawMorphology c of None \<Rightarrow> None | Some raw \<Rightarrow> raw_sections raw)
      | _ \<Rightarrow> None)"

definition morphologyOf :: "collection outcome \<Rightarrow> Morphology option" where
  "morphologyOf r = (case r of Some (Inr c) \<Rightarrow> c_morphology c | _ \<Rightarrow> None)"

declare nonSomaLoop.simps [code]
declare dive.simps [code]
declare popLoop.simps [code]

section \<open>SwcParser.js: extractPoints\<close>

text \<open>
  The text is a list of characters of ASCII. \<open>\s\<close> matches the white space of ASCII
  (tab, line feed, vertical tab, form feed, carriage return, space); the line
  terminators, which \<open>.\<close> does not match and which delimit lines for \<open>^\<close> and \<open>$\<close>
  under the flag \<open>m\<close>, are line feed and carriage return.
\<close>

definition isWhitespace :: "char \<Rightarrow> bool" where
  "isWhitespace c =
     (c = CHR 0x09 \<or> c = CHR 0x0A \<or> c = CHR 0x0B \<or> c = CHR 0x0C \<or> c = CHR 0x0D
      \<or> c = CHR 0x20)"

definition isLineTerminator :: "char \<Rightarrow> bool" where
  "isLineTerminator c = (c = CHR 0x0A \<or> c = CHR 0x0D)"

text \<open>
  A regular expression is given by its matcher: from the text that precedes a position
  (reversed, nearest character first) and the text from the position on, the length of
  the match that starts at the position, if there is one. \<open>replaceAll\<close> is
  \<open>String.replace\<close> with a global expression and the replacement \<open>''\<close>: the leftmost
  match is removed and the search goes on at its end, one character further after an
  empty match. \<open>replaceFirst\<close> is the same for an expression without the flag \<open>g\<close>.
\<close>

type_synonym matcher = "string \<Rightarrow> string \<Rightarrow> nat option"

function replaceAll :: "matcher \<Rightarrow> string \<Rightarrow> string \<Rightarrow> string" where
  "replaceAll m pre [] = []"
| "replaceAll m pre (c # cs) =
     (case m pre (c # cs) of
        None \<Rightarrow> c # replaceAll m (c # pre) cs
      | Some 0 \<Rightarrow> c # replaceAll m (c # pre) cs
      | Some (Suc n) \<Rightarrow> replaceAll m (rev (take n cs) @ c # pre) (drop n cs))"
  by pat_completeness auto
termination
  by (relation "measure (\<lambda>(m, pre, s). length s)") auto

fun replaceFirst :: "matcher \<Rightarrow> string \<Rightarrow> string \<Rightarrow> string" where
  "replaceFirst m pre [] = []"
| "replaceFirst m pre (c # cs) =
     (case m pre (c # cs) of
        None \<Rightarrow> c # replaceFirst m (c # pre) cs
      | Some n \<Rightarrow> drop n (c # cs))"

definition atLineStart :: "string \<Rightarrow> bool" where
  "atLineStart pre = (case pre of [] \<Rightarrow> True | c # _ \<Rightarrow> isLineTerminator c)"

text \<open>
  The largest \<open>j\<close> with \<open>lo \<le> j < length w\<close> such that \<open>w ! j\<close> is a line terminator:
  how far a greedy \<open>\s*\<close> or \<open>\s+\<close> over the white space \<open>w\<close> is given back until
  \<open>$\<close> holds, when the character after \<open>w\<close> is not a line terminator.
\<close>

definition lastTerminator :: "string \<Rightarrow> nat \<Rightarrow> nat option" where
  "lastTerminator w lo =
     (let js = filter (\<lambda>j. isLineTerminator (w ! j)) [lo ..< length w]
      in if js = [] then None else Some (last js))"

text \<open>\<open>/\s*#.*?$/mg\<close>: white space, \<open>#\<close>, and the rest of the line.\<close>

definition commentRegex :: matcher where
  "commentRegex pre s =
     (case dropWhile isWhitespace s of
        [] \<Rightarrow> None
      | c # rest \<Rightarrow>
          if c = CHR ''#''
          then Some (length (takeWhile isWhitespace s) + 1
                     + length (takeWhile (\<lambda>c. \<not> isLineTerminator c) rest))
          else None)"

text \<open>\<open>/^\s*$/mg\<close>.\<close>

definition emptyLineRegex :: matcher where
  "emptyLineRegex pre s =
     (if atLineStart pre
      then (if dropWhile isWhitespace s = [] then Some (length (takeWhile isWhitespace s))
            else lastTerminator (takeWhile isWhitespace s) 0)
      else None)"

text \<open>\<open>/^\s+/m\<close> and \<open>/\s+$/m\<close>.\<close>

definition leadingSpaceRegex :: matcher where
  "leadingSpaceRegex pre s =
     (if atLineStart pre \<and> takeWhile isWhitespace s \<noteq> []
      then Some (length (takeWhile isWhitespace s)) else None)"

definition trailingSpaceRegex :: matcher where
  "trailingSpaceRegex pre s =
     (if takeWhile isWhitespace s = [] then None
      else if dropWhile isWhitespace s = [] then Some (length (takeWhile isWhitespace s))
      else lastTerminator (takeWhile isWhitespace s) 1)"

definition trim :: "string \<Rightarrow> string" where
  "trim s = rev (dropWhile isWhitespace (rev (dropWhile isWhitespace s)))"

text \<open>\<open>split('\n')\<close>, with the line read so far as first argument.\<close>

fun splitNewline :: "string \<Rightarrow> string \<Rightarrow> string list" where
  "splitNewline cur [] = [cur]"
| "splitNewline cur (c # cs) =
     (if c = CHR 0x0A then cur # splitNewline [] cs else splitNewline (cur @ [c]) cs)"

text \<open>\<open>split(/[\s,]+/)\<close>, with the field read so far as first argument.\<close>

definition isSeparator :: "char \<Rightarrow> bool" where
  "isSeparator c = (isWhitespace c \<or> c = CHR '','')"

function splitFields :: "string \<Rightarrow> string \<Rightarrow> string list" where
  "splitFields cur [] = [cur]"
| "splitFields cur (c # cs) =
     (if isSeparator c then cur # splitFields [] (dropWhile isSeparator cs)
      else splitFields (cur @ [c]) cs)"
  by pat_completeness auto
termination
  by (relation "measure (\<lambda>(cur, s). length s)")
     (auto simp: length_dropWhile_le less_Suc_eq_le)

text \<open>
  \<open>swcPoints[i] = v\<close> on a JavaScript array: an index beyond the end extends the array,
  the slots in between staying empty.
\<close>

definition arraySet :: "'a option list \<Rightarrow> nat \<Rightarrow> 'a \<Rightarrow> 'a option list" where
  "arraySet a i v =
     (if i < length a then a[i := Some v]
      else a @ replicate (i - length a) None @ [Some v])"

text \<open>
  The loop of \<open>extractPoints\<close> over the lines. \<open>Math.round(parseFloat(t))\<close> and
  \<open>parseFloat(t)\<close> are the arguments \<open>roundFloat\<close> and \<open>parseFloat\<close>: which record
  a line gives depends on them, which slot of the array it fills does not.
\<close>

definition rowOf :: "string \<Rightarrow> string list" where
  "rowOf line =
     splitFields [] (replaceFirst trailingSpaceRegex [] (replaceFirst leadingSpaceRegex [] line))"

definition pointOfRow :: "(string \<Rightarrow> int) \<Rightarrow> (string \<Rightarrow> real) \<Rightarrow> string list \<Rightarrow> point" where
  "pointOfRow roundFloat parseFloat row =
     \<lparr>p_id = roundFloat (row ! 0), p_type = roundFloat (row ! 1),
      p_x = parseFloat (row ! 2), p_y = parseFloat (row ! 3), p_z = parseFloat (row ! 4),
      p_radius = parseFloat (row ! 5), p_parentId = roundFloat (row ! 6)\<rparr>"

fun extractLoop ::
  "(string \<Rightarrow> int) \<Rightarrow> (string \<Rightarrow> real) \<Rightarrow> string list \<Rightarrow> nat \<Rightarrow> point option list \<Rightarrow>
   point option list" where
  "extractLoop roundFloat parseFloat [] i swcPoints = swcPoints"
| "extractLoop roundFloat parseFloat (line # lines) i swcPoints =
     extractLoop roundFloat parseFloat lines (i + 1)
       (if length (rowOf line) \<ge> 7
        then arraySet swcPoints i (pointOfRow roundFloat parseFloat (rowOf line))
        else swcPoints)"

definition cleanedLines :: "string \<Rightarrow> string list" where
  "cleanedLines swcStr =
     splitNewline []
       (replaceAll emptyLineRegex [] (trim (replaceAll commentRegex [] swcStr)))"

definition extractPoints ::
  "(string \<Rightarrow> int) \<Rightarrow> (string \<Rightarrow> real) \<Rightarrow> string \<Rightarrow> point option list" where
  "extractPoints roundFloat parseFloat swcStr =
     extractLoop roundFloat parseFloat (cleanedLines swcStr) 0 []"

text \<open>
  Readers for the tokens made of an optional minus sign, digits and an optional
  fraction: on these, \<open>decimalFloat\<close> is \<open>parseFloat\<close> and \<open>decimalRound\<close> is
  \<open>Math.round\<close> of it (the floor of the value plus one half). They stand for the two
  built-ins on such tokens only.
\<close>

definition isDigit :: "char \<Rightarrow> bool" where
  "isDigit c = (48 \<le> (of_char c :: nat) \<and> (of_char c :: nat) \<le> 57)"

definition digitsValue :: "string \<Rightarrow> nat" where
  "digitsValue ds = foldl (\<lambda>acc c. 10 * acc + ((of_char c :: nat) - 48)) 0 ds"

definition unsignedDecimal :: "string \<Rightarrow> real" where
  "unsignedDecimal s =
     (let fraction = (case dropWhile isDigit s of
                        [] \<Rightarrow> []
                      | c # t \<Rightarrow> if c = CHR ''.'' then takeWhile isDigit t else [])
      in real (digitsValue (takeWhile isDigit s))
         + real (digitsValue fraction) / 10 ^ length fraction)"

definition decimalFloat :: "string \<Rightarrow> real" where
  "decimalFloat s =
     (case s of
        [] \<Rightarrow> 0
      | c # t \<Rightarrow> if c = CHR ''-'' then - unsignedDecimal t else unsignedDecimal s)"

definition decimalRound :: "string \<Rightarrow> int" where
  "decimalRound s = \<lfloor>decimalFloat s + 1 / 2\<rfloor>"

text \<open>\<open>SwcParser.parse\<close> on a text whose tokens are of that form.\<close>

definition parse :: "string \<Rightarrow> collection outcome" where
  "parse swcStr = parsePoints (extractPoints decimalRound decimalFloat swcStr)"

section \<open>Example inputs\<close>

text \<open>
  A trace with two forks, used for the order of the sections: a soma root 1, an axon
  point 2 with the children 3 and 4, and the children 5 and 6 of 4.
\<close>

definition forkTrace :: "point option list" where
  "forkTrace =
     [swcPoint 1 1 0 0 0 5 (- 1), swcPoint 2 2 1 0 0 1 1, swcPoint 3 2 2 0 0 1 2,
      swcPoint 4 2 3 0 0 1 2, swcPoint 5 2 4 0 0 1 4, swcPoint 6 2 5 0 0 1 4]"

text \<open>
  A fork with three children: a soma root 1, an axon point 2 and its children 3, 4 and
  5, in this order in the file and so in the child list of point 2.
\<close>

definition threeFork :: "point option list" where
  "threeFork =
     [swcPoint 1 1 0 0 0 5 (- 1), swcPoint 2 2 1 0 0 1 1, swcPoint 3 2 2 0 0 1 2,
      swcPoint 4 2 3 0 0 1 2, swcPoint 5 2 4 0 0 1 2]"

text \<open>
  A fork: a soma root, an axon point, and two axon children of that point; the raw
  sections the parser makes of it, and the morphology built from them.
\<close>

definition simpleFork :: "point option list" where
  "simpleFork =
     [swcPoint 1 1 0 0 0 5 (- 1), swcPoint 2 2 1 0 0 1 1, swcPoint 3 2 2 0 0 1 2,
      swcPoint 4 2 3 0 0 1 2]"

definition simpleForkSections :: "rawSection list" where
  "simpleForkSections =
     [\<lparr>sec_typevalue = 2, sec_typename = None,
       sec_points = [((0, 0, 0), 0), ((1, 0, 0), 1)], sec_id = 0,
       sec_children = [], sec_parent = None\<rparr>,
      \<lparr>sec_typevalue = 2, sec_typename = None,
       sec_points = [((1, 0, 0), 1), ((3, 0, 0), 1)], sec_id = 1,
       sec_children = [], sec_parent = Some 0\<rparr>,
      \<lparr>sec_typevalue = 2, sec_typename = None,
       sec_points = [((1, 0, 0), 1), ((2, 0, 0), 1)], sec_id = 2,
       sec_children = [], sec_parent = Some 0\<rparr>]"

definition simpleForkMorphology :: Morphology where
  "simpleForkMorphology =
     \<lparr>m_sections =
        [(0, \<lparr>s_id = 0, s_parent = None, s_children = [], s_typename = Some ''axon'',
              s_typevalue = Some 2, s_points = [(0, 0, 0), (1, 0, 0)],
              s_radiuses = [0, 1]\<rparr>),
         (1, \<lparr>s_id = 1, s_parent = Some 0, s_children = [], s_typename = Some ''axon'',
              s_typevalue = Some 2, s_points = [(1, 0, 0), (3, 0, 0)],
              s_radiuses = [1, 1]\<rparr>),
         (2, \<lparr>s_id = 2, s_parent = Some 0, s_children = [], s_typename = Some ''axon'',
              s_typevalue = Some 2, s_points = [(1, 0, 0), (2, 0, 0)],
              s_radiuses = [1, 1]\<rparr>)],
      m_soma = None\<rparr>"

text \<open>
  A trace whose third point names a parent that no earlier point has, and a trace whose
  third point names itself.
\<close>

definition danglingParent :: "point option list" where
  "danglingParent =
     [swcPoint 1 1 0 0 0 5 (- 1), swcPoint 2 2 1 0 0 1 1, swcPoint 5 2 2 0 0 1 7]"

definition ownParent :: "point option list" where
  "ownParent =
     [swcPoint 1 1 0 0 0 5 (- 1), swcPoint 2 2 1 0 0 1 1, swcPoint 5 2 2 0 0 1 5]"

text \<open>
  A soma root followed by an unbranched chain of four axon points: the ids \<open>s\<close>,
  \<open>a1\<close> to \<open>a4\<close> and the samples (position and radius) \<open>q0\<close> to \<open>q4\<close> are
  arbitrary. \<open>chainHeap\<close> is the heap \<open>_initCollection\<close> builds from it when the ids are
  distinct, \<open>chainSection\<close> the one section expected from it.
\<close>

type_synonym sample = "position \<times> real"

definition samplePoint :: "int \<Rightarrow> int \<Rightarrow> sample \<Rightarrow> int \<Rightarrow> point option" where
  "samplePoint i t q parent =
     swcPoint i t (fst (fst q)) (fst (snd (fst q))) (snd (snd (fst q))) (snd q) parent"

definition chainTrace ::
  "int \<Rightarrow> int \<Rightarrow> int \<Rightarrow> int \<Rightarrow> int \<Rightarrow> sample \<Rightarrow> sample \<Rightarrow> sample \<Rightarrow> sample \<Rightarrow> sample \<Rightarrow>
   point option list" where
  "chainTrace s a1 a2 a3 a4 q0 q1 q2 q3 q4 =
     [samplePoint s 1 q0 (- 1), samplePoint a1 2 q1 s, samplePoint a2 2 q2 a1,
      samplePoint a3 2 q3 a2, samplePoint a4 2 q4 a3]"

definition chainNode :: "int \<Rightarrow> int \<Rightarrow> sample \<Rightarrow> nat option \<Rightarrow> nat list \<Rightarrow> TreeNode" where
  "chainNode i t q parent children =
     \<lparr>n_id = i, n_type = t, n_position = fst q, n_radius = snd q, n_parent = parent,
      n_children = children, n_hasSomaChildren = False\<rparr>"

definition chainHeap ::
  "int \<Rightarrow> int \<Rightarrow> int \<Rightarrow> int \<Rightarrow> int \<Rightarrow> sample \<Rightarrow> sample \<Rightarrow> sample \<Rightarrow> sample \<Rightarrow> sample \<Rightarrow>
   heap" where
  "chainHeap s a1 a2 a3 a4 q0 q1 q2 q3 q4 =
     [chainNode s 1 q0 None [1], chainNode a1 2 q1 (Some 0) [2],
      chainNode a2 2 q2 (Some 1) [3], chainNode a3 2 q3 (Some 2) [4],
      chainNode a4 2 q4 (Some 3) []]"

definition chainSection :: "sample \<Rightarrow> sample \<Rightarrow> sample \<Rightarrow> sample \<Rightarrow> sample \<Rightarrow> rawSection" where
  "chainSection q0 q1 q2 q3 q4 =
     \<lparr>sec_typevalue = 2, sec_typename = None,
      sec_points = [(fst q0, 0), q1, q2, q3, q4], sec_id = 0, sec_children = [],
      sec_parent = None\<rparr>"

definition chainMorphologySection ::
  "sample \<Rightarrow> sample \<Rightarrow> sample \<Rightarrow> sample \<Rightarrow> sample \<Rightarrow> Section" where
  "chainMorphologySection q0 q1 q2 q3 q4 =
     \<lparr>s_id = 0, s_parent = None, s_children = [], s_typename = Some ''axon'',
      s_typevalue = Some 2, s_points = [fst q0, fst q1, fst q2, fst q3, fst q4],
      s_radiuses = [0, snd q1, snd q2, snd q3, snd q4]\<rparr>"

text \<open>
  A soma point with the id 10, first in the file, with an axon branch (points 1 and 2)
  and a basal dendrite branch (points 3 and 4).
\<close>

definition twoBranches :: "point option list" where
  "twoBranches =
     [swcPoint 10 1 0 0 0 5 (- 1), swcPoint 1 2 1 0 0 1 10, swcPoint 2 2 2 0 0 1 1,
      swcPoint 3 3 0 1 0 1 10, swcPoint 4 3 0 2 0 1 3]"

text \<open>
  The heap that \<open>_initCollection\<close> builds from the points \<open>(1,2,0,0,0,1,1)\<close> and
  \<open>(2,2,0,0,0,1,1)\<close>: the first node is registered before its parent is looked up, so
  it becomes its own parent and its own first child.
\<close>

definition selfParentHeap :: heap where
  "selfParentHeap =
     [\<lparr>n_id = 1, n_type = 2, n_position = (0, 0, 0), n_radius = 1, n_parent = Some 0,
       n_children = [0, 1], n_hasSomaChildren = False\<rparr>,
      \<lparr>n_id = 2, n_type = 2, n_position = (0, 0, 0), n_radius = 1, n_parent = Some 0,
       n_children = [], n_hasSomaChildren = False\<rparr>]"

text \<open>
  The heap built from two soma points in a chain, \<open>(1,1,0,0,0,5,-1)\<close> and
  \<open>(2,1,1,0,0,5,1)\<close>, when \<open>SWC_TYPES.SOMA\<close> is the 1 of the table.
\<close>

definition somaChainHeap :: heap where
  "somaChainHeap =
     [\<lparr>n_id = 1, n_type = 1, n_position = (0, 0, 0), n_radius = 5, n_parent = None,
       n_children = [1], n_hasSomaChildren = True\<rparr>,
      \<lparr>n_id = 2, n_type = 1, n_position = (1, 0, 0), n_radius = 5, n_parent = Some 0,
       n_children = [], n_hasSomaChildren = False\<rparr>]"

section \<open>Invariants and the depth-first order\<close>

text \<open>
  The states the pop loop goes through on \<open>selfParentHeap\<close>: the stack holds the first
  node, or the first node below the second, and every parent id on it is the index of a
  section.
\<close>

definition validParent :: "nat option \<Rightarrow> rawSection list \<Rightarrow> bool" where
  "validParent po secs = (case po of None \<Rightarrow> True | Some p \<Rightarrow> p < length secs)"

definition selfParentCycle :: "build_state \<Rightarrow> bool" where
  "selfParentCycle st =
     (case st of (secs, stack, c) \<Rightarrow>
        c = length secs \<and>
        (\<exists>po po'. (stack = [(0, po)] \<or> stack = [(0, po), (1, po')])
                  \<and> validParent po secs \<and> validParent po' secs))"

text \<open>
  The links of a heap agree: every child listed by a node is an object of the heap whose
  \<open>_parent\<close> is that node. Every reference of the registry is an object of the heap.
\<close>

definition linked :: "heap \<Rightarrow> bool" where
  "linked h = (\<forall>b < length h. \<forall>c \<in> set (n_children (h ! b)).
                 c < length h \<and> n_parent (h ! c) = Some b)"

definition registered :: "registry \<Rightarrow> heap \<Rightarrow> bool" where
  "registered nodes h = (\<forall>(k, a) \<in> set nodes. a < length h)"

text \<open>
  The point a section records for a node. A list of sections is \<open>continuous\<close> when every
  section with a parent starts with the last point of that parent. A work-stack entry is
  \<open>anchored\<close> when the parent of its node is the node the last point of its parent
  section was read from; an entry without parent section has a node with a parent.
\<close>

definition ptOf :: "heap \<Rightarrow> nat \<Rightarrow> position \<times> real" where
  "ptOf h n = (n_position (h ! n), n_radius (h ! n))"

definition continuous :: "rawSection list \<Rightarrow> bool" where
  "continuous secs =
     (\<forall>k < length secs. \<forall>p. sec_parent (secs ! k) = Some p \<longrightarrow>
        p < length secs \<and> sec_points (secs ! k) \<noteq> [] \<and> sec_points (secs ! p) \<noteq> []
        \<and> hd (sec_points (secs ! k)) = last (sec_points (secs ! p)))"

definition anchored :: "heap \<Rightarrow> rawSection list \<Rightarrow> work \<Rightarrow> bool" where
  "anchored h secs e =
     (fst e < length h \<and>
      (case snd e of
         None \<Rightarrow> n_parent (h ! fst e) \<noteq> None
       | Some p \<Rightarrow> p < length secs \<and> sec_points (secs ! p) \<noteq> []
                  \<and> (\<exists>b. n_parent (h ! fst e) = Some b
                          \<and> last (sec_points (secs ! p)) = ptOf h b)))"

definition buildInv :: "heap \<Rightarrow> build_state \<Rightarrow> bool" where
  "buildInv h st =
     (case st of (secs, stack, cur) \<Rightarrow>
        cur = length secs \<and> continuous secs \<and> (\<forall>e \<in> set stack. anchored h secs e))"

text \<open>
  The run of the pop loop as a relation. To \<open>visit\<close> a work entry from a list of
  sections is to call \<open>buildRawSection\<close> on it, to append the section, and then to
  visit the entries that the call pushed, from the last one pushed to the first;
  \<open>visitAll\<close> visits a list of entries in order. \<open>popLoop_visitAll\<close> shows that a
  loop that returns has visited its stack from the top. \<open>numbered\<close>: the section at
  index \<open>k\<close> has the id \<open>k\<close>.
\<close>

inductive visit ::
  "int option \<Rightarrow> heap \<Rightarrow> work \<Rightarrow> rawSection list \<Rightarrow> rawSection list \<Rightarrow> bool"
  and visitAll ::
  "int option \<Rightarrow> heap \<Rightarrow> work list \<Rightarrow> rawSection list \<Rightarrow> rawSection list \<Rightarrow> bool"
where
  visit_entry:
    "buildRawSection soma h (fst e) (snd e) (secs, [], length secs)
       = Some (Inr (sec, secs1, yields, c)) \<Longrightarrow>
     visitAll soma h (rev yields) (secs1 @ [sec]) secs' \<Longrightarrow>
     visit soma h e secs secs'"
| visit_none: "visitAll soma h [] secs secs"
| visit_next:
    "visit soma h e secs secs1 \<Longrightarrow> visitAll soma h es secs1 secs' \<Longrightarrow>
     visitAll soma h (e # es) secs secs'"

code_pred visit .

definition numbered :: "rawSection list \<Rightarrow> bool" where
  "numbered secs = (\<forall>k < length secs. sec_id (secs ! k) = k)"

text \<open>
  The samples (position and radius) of the points of type \<open>t\<close>, in file order.
\<close>

definition samplesOf :: "int \<Rightarrow> point option list \<Rightarrow> (position \<times> real) list" where
  "samplesOf t points =
     map (\<lambda>p. ((p_x p, p_y p, p_z p), p_radius p))
       (filter (\<lambda>p. p_type p = t) (map the points))"

text \<open>
  \<open>kept\<close>: a later list of sections extends an earlier one, the ids, parents and
  points of the earlier sections being unchanged.
\<close>

definition kept :: "rawSection list \<Rightarrow> rawSection list \<Rightarrow> bool" where
  "kept secs secs' =
     (length secs \<le> length secs' \<and>
      (\<forall>k < length secs. sec_id (secs' ! k) = sec_id (secs ! k)
         \<and> sec_parent (secs' ! k) = sec_parent (secs ! k)
         \<and> sec_points (secs' ! k) = sec_points (secs ! k)))"

text \<open>
  The flag \<open>_hasSomaChildren\<close> of a heap is right when no node whose flag is off has
  a soma child.
\<close>

definition flagged :: "int option \<Rightarrow> heap \<Rightarrow> bool" where
  "flagged soma h =
     (\<forall>b < length h. \<not> n_hasSomaChildren (h ! b) \<longrightarrow>
        (\<forall>c \<in> set (n_children (h ! b)). \<not> isSoma soma (h ! c)))"

text \<open>
  The tree and the order of its sections, in the words of the specification (section
  4.3), for comparison with what the code computes. The structural children of a node
  are the nodes of its child list \<open>_children\<close> that are not soma nodes, in the order of
  that list. A section runs from its starting node along the only children of the same
  type: \<open>walk soma h n path forks\<close> says that the run from \<open>n\<close> passes the nodes
  \<open>path\<close> and ends on a node with no or several structural children, which are the
  \<open>forks\<close>, the starting nodes of the child sections, or on a node whose only child has
  another type, where the branch is cut and nothing is spawned.
\<close>

definition nonSomaChildren :: "int option \<Rightarrow> heap \<Rightarrow> nat \<Rightarrow> nat list" where
  "nonSomaChildren soma h n = filter (\<lambda>c. \<not> isSoma soma (h ! c)) (n_children (h ! n))"

inductive walk :: "int option \<Rightarrow> heap \<Rightarrow> nat \<Rightarrow> nat list \<Rightarrow> nat list \<Rightarrow> bool" where
  walk_on:
    "nonSomaChildren soma h n = [c] \<Longrightarrow> n_type (h ! c) = n_type (h ! n) \<Longrightarrow>
     walk soma h c path forks \<Longrightarrow> walk soma h n (n # path) forks"
| walk_cut:
    "nonSomaChildren soma h n = [c] \<Longrightarrow> n_type (h ! c) \<noteq> n_type (h ! n) \<Longrightarrow>
     walk soma h n [n] []"
| walk_end:
    "length (nonSomaChildren soma h n) \<noteq> 1 \<Longrightarrow>
     walk soma h n [n] (nonSomaChildren soma h n)"

code_pred walk .

text \<open>
  The depth-first numbering. An entry is a starting node with the id of its parent
  section. \<open>depthFirst soma h e k order\<close>: when \<open>k\<close> sections exist, the section of the
  entry \<open>e\<close> takes the id \<open>k\<close>, and the sections below it follow at once, the forks
  of \<open>e\<close> being taken in the reverse of their structural order, each with everything
  below it before the next; \<open>order ! j\<close> is the entry whose section has the id
  \<open>k + j\<close>. \<open>depthFirstAll\<close> numbers a list of entries one after the other.
\<close>

inductive depthFirst ::
  "int option \<Rightarrow> heap \<Rightarrow> work \<Rightarrow> nat \<Rightarrow> work list \<Rightarrow> bool"
  and depthFirstAll ::
  "int option \<Rightarrow> heap \<Rightarrow> work list \<Rightarrow> nat \<Rightarrow> work list \<Rightarrow> bool"
where
  df_section:
    "walk soma h (fst e) path forks \<Longrightarrow>
     depthFirstAll soma h (rev (map (\<lambda>c. (c, Some k)) forks)) (Suc k) below \<Longrightarrow>
     depthFirst soma h e k (e # below)"
| df_none: "depthFirstAll soma h [] k []"
| df_next:
    "depthFirst soma h e k xs \<Longrightarrow> depthFirstAll soma h es (k + length xs) ys \<Longrightarrow>
     depthFirstAll soma h (e # es) k (xs @ ys)"

code_pred depthFirst .

text \<open>
  \<open>sectionAt\<close>: the section at index \<open>k\<close> is the section of the entry \<open>e\<close>. It has
  the id \<open>k\<close> and the parent section of the entry, and its points are those of the
  parent of the starting node, if it has one, followed by the nodes of the run from the
  starting node, the first radius being 0 when the entry has no parent section.
\<close>

definition seedOf :: "heap \<Rightarrow> nat \<Rightarrow> nat list" where
  "seedOf h n = (case n_parent (h ! n) of Some p \<Rightarrow> [p] | None \<Rightarrow> [])"

definition sectionAt :: "int option \<Rightarrow> heap \<Rightarrow> work \<Rightarrow> nat \<Rightarrow> rawSection list \<Rightarrow> bool" where
  "sectionAt soma h e k secs =
     (k < length secs \<and> sec_id (secs ! k) = k \<and> sec_parent (secs ! k) = snd e \<and>
      (\<exists>path forks.
         walk soma h (fst e) path forks
         \<and> sec_points (secs ! k)
             = (if snd e = None then zeroFirstRadius (map (ptOf h) (seedOf h (fst e) @ path))
                else map (ptOf h) (seedOf h (fst e) @ path))))"

text \<open>
  \<open>reversedSiblings order forks parent idx\<close>: \<open>idx\<close> lists, along the sibling nodes
  \<open>forks\<close> in their structural order, the places in \<open>order\<close> of the entries that
  start from them under the parent section \<open>parent\<close>, and these places decrease: a
  later sibling is numbered before an earlier one. \<open>forkOrder\<close>: at every entry of
  \<open>order\<close> the forks of its run are numbered so, under the id of the entry's section and
  after it.
\<close>

definition reversedSiblings :: "work list \<Rightarrow> nat list \<Rightarrow> nat option \<Rightarrow> nat list \<Rightarrow> bool" where
  "reversedSiblings order forks parent idx =
     (length idx = length forks \<and> sorted_wrt (>) idx \<and>
      (\<forall>i < length forks. idx ! i < length order \<and> order ! (idx ! i) = (forks ! i, parent)))"

definition forkOrder :: "int option \<Rightarrow> heap \<Rightarrow> nat \<Rightarrow> work list \<Rightarrow> bool" where
  "forkOrder soma h k order =
     (\<forall>j < length order. \<exists>path forks idx.
        walk soma h (fst (order ! j)) path forks
        \<and> reversedSiblings order forks (Some (k + j)) idx \<and> (\<forall>i \<in> set idx. j < i))"

text \<open>The heap that \<open>_initCollection\<close> builds from \<open>forkTrace\<close>.\<close>

definition forkHeap :: heap where
  "forkHeap =
     (case initCollection SWC_TYPES_SOMA forkTrace of
        Inr (nodes, h, rawSoma) \<Rightarrow> h
      | Inl e \<Rightarrow> [])"

text \<open>
  The slot a line fills in the result of \<open>extractPoints\<close>, and a list of slots
  without the empty slots at its end.
\<close>

definition slotOf :: "(string \<Rightarrow> int) \<Rightarrow> (string \<Rightarrow> real) \<Rightarrow> string \<Rightarrow> point option" where
  "slotOf roundFloat parseFloat line =
     (if length (rowOf line) \<ge> 7 then Some (pointOfRow roundFloat parseFloat (rowOf line))
      else None)"

definition dropTrailingEmpty :: "'a option list \<Rightarrow> 'a option list" where
  "dropTrailingEmpty xs = rev (dropWhile (\<lambda>x. x = None) (rev xs))"

section \<open>A soma point alone\<close>

text \<open>
  Claim C1. An input whose points include soma points but give no section should parse
  without failure into a morphology with a soma and no section; for the single point
  \<open>(1,1,0,0,0,5,-1)\<close> the soma should have centre \<open>(0,0,0)\<close> and radius 5. The code
  does otherwise. With the value \<open>SWC_TYPES.SOMA\<close> has in the program, no point is
  recognised as a soma point: the parse of the single point returns, and both
  \<open>_morphology\<close> and \<open>_rawMorphology\<close> are \<open>null\<close>. With the value 1 of the table
  of \<open>Constants.js\<close> the raw soma is built, and \<open>buildFromRawMorphology\<close> then throws on
  \<open>rawMorphology.sections.length\<close>, the sections being \<open>null\<close>.
\<close>

theorem single_soma_point_gives_no_morphology:
  "parsePoints [swcPoint 1 1 0 0 0 5 (- 1)]
     = Some (Inr \<lparr>c_rawMorphology = None, c_morphology = None\<rparr>)
   \<and> TreeNodeCollection SWC_TYPES_table_SOMA [swcPoint 1 1 0 0 0 5 (- 1)]
     = Some (Inl TypeError)"
  by code_simp

section \<open>Registering a section with its parent\<close>

text \<open>
  Claim C4. A section built from a work-stack entry whose parent-section id is not
  \<open>null\<close> should be appended to the children of that parent, also when the parent's id
  is 0. \<open>buildRawSection\<close> tests \<open>if (parentSectionId)\<close>, which is false for 0. On
  \<open>forkTrace\<close> (a soma root 1, an axon point 2, its children 3 and 4, and the children
  5 and 6 of 4) the sections 1 and 4 have the parent 0 and the sections 2 and 3 the
  parent 1: section 1 lists its children, section 0 lists none. Each entry is the id,
  the parent and the children of a section.
\<close>

theorem children_of_section_zero_not_registered:
  "map_option (map (\<lambda>s. (sec_id s, sec_parent s, sec_children s)))
     (rawSectionsOf (parsePoints forkTrace))
   = Some [(0, None, []), (1, Some 0, [2, 3]), (2, Some 1, []), (3, Some 1, []),
           (4, Some 0, [])]"
  by code_simp

text \<open>
  The morphology built from these raw sections follows them: \<open>buildFromRawMorphology\<close>
  sets the parent of a section with \<open>parent !== null\<close>, so sections 1 and 4 know their
  parent 0, and it takes the children from the raw lists.
\<close>

lemma forkTrace_morphology_links:
  "map_option (map (\<lambda>(k, s). (k, s_parent s, s_children s)) \<circ> m_sections)
     (morphologyOf (parsePoints forkTrace))
   = Some [(0, None, []), (1, Some 0, [2, 3]), (2, Some 1, []), (3, Some 1, []),
           (4, Some 0, [])]"
  by code_simp

lemma parent_zero_never_pushed:
  assumes "buildRawSection soma h n (Some 0) (sections, stack, cur)
             = Some (Inr (section, sections1, stack1, cur1))"
  shows "sections1 = sections \<and> sec_parent section = Some 0"
  using assms
  by (auto simp: buildRawSection_def truthy_def Let_def split: option.splits prod.splits)

section \<open>Looking a section up\<close>

text \<open>
  Claim C5. \<open>getSection\<close> should report every id that is absent from the section
  storage as not found (it returns \<open>null\<close> for that) and return the stored section
  for every id that is present. The test \<open>id in this._sections\<close> also holds for the
  names that a plain object inherits. On the morphology parsed from \<open>simpleFork\<close>,
  whose sections are stored under 0, 1 and 2, the id \<open>'constructor'\<close> is no key of the
  storage, and \<open>getSection\<close> returns the inherited \<open>constructor\<close> property instead of
  \<open>null\<close>.
\<close>

theorem getSection_finds_inherited_property:
  "morphologyOf (parsePoints simpleFork) = Some simpleForkMorphology
   \<and> map (ToString \<circ> fst) (m_sections simpleForkMorphology) = [''0'', ''1'', ''2'']
   \<and> getSection simpleForkMorphology ''constructor'' = Some (Inherited ''constructor'')"
  by code_simp

text \<open>
  Apart from the inherited names the function does what its documentation says: the
  key of a stored section gives a section stored under that key, and a key that is
  neither stored nor inherited gives \<open>null\<close>.
\<close>

lemma getSection_stored:
  assumes "key \<in> set (map (ToString \<circ> fst) (m_sections m))"
  shows "\<exists>k s. (k, s) \<in> set (m_sections m) \<and> ToString k = key
               \<and> getSection m key = Some (SectionObject s)"
proof -
  from assms obtain k0 s0 where "(k0, s0) \<in> set (m_sections m)" "ToString k0 = key"
    by auto
  then have "find (\<lambda>(k, s). ToString k = key) (m_sections m) \<noteq> None"
    by (auto simp: find_None_iff)
  then obtain x where f: "find (\<lambda>(k, s). ToString k = key) (m_sections m) = Some x"
    by blast
  obtain k s where x: "x = (k, s)" by (cases x)
  from f x have "(k, s) \<in> set (m_sections m)" "ToString k = key"
    by (auto simp: find_Some_iff in_set_conv_nth)
  moreover from f x assms have "getSection m key = Some (SectionObject s)"
    by (simp add: getSection_def hasProperty_def getProperty_def)
  ultimately show ?thesis by blast
qed

lemma getSection_null:
  assumes "key \<notin> set (map (ToString \<circ> fst) (m_sections m))"
    and "key \<notin> set Object_prototype"
  shows "getSection m key = None"
  using assms by (simp add: getSection_def hasProperty_def)

lemma getSection_inherited:
  assumes "key \<notin> set (map (ToString \<circ> fst) (m_sections m))"
    and "key \<in> set Object_prototype"
  shows "getSection m key = Some (Inherited key)"
proof -
  from assms(1) have "find (\<lambda>(k, s). ToString k = key) (m_sections m) = None"
    by (fastforce simp: find_None_iff image_iff)
  with assms(2) show ?thesis by (simp add: getSection_def hasProperty_def getProperty_def)
qed

lemma getSection_simpleFork:
  "getSection simpleForkMorphology ''1''
     = map_option SectionObject (map_of (m_sections simpleForkMorphology) 1)
   \<and> getSection simpleForkMorphology ''7'' = None
   \<and> getSection simpleForkMorphology ''toString'' = Some (Inherited ''toString'')"
  by code_simp

section \<open>The soma record\<close>

text \<open>
  Claim C9. When the input has a soma-typed point, the soma record should carry the
  largest radius of the soma points, and its centre should be the single soma point or
  the mean of the soma points. \<open>_initCollection\<close> selects the soma points with
  \<open>points[i][1] === SWC_TYPES.SOMA\<close>, which no type code satisfies in the program:
  no soma record is made. On a soma point of radius 5 followed by an axon point the
  morphology has no soma, and the soma point is the first point of the axon section.
\<close>

theorem soma_point_gives_no_soma:
  "parsePoints [swcPoint 1 1 0 0 0 5 (- 1), swcPoint 2 2 1 0 0 1 1]
   = Some (Inr
       \<lparr>c_rawMorphology = Some
          \<lparr>raw_soma = None,
           raw_sections = Some
             [\<lparr>sec_typevalue = 2, sec_typename = None,
               sec_points = [((0, 0, 0), 0), ((1, 0, 0), 1)],
               sec_id = 0, sec_children = [], sec_parent = None\<rparr>]\<rparr>,
        c_morphology = Some
          \<lparr>m_sections =
             [(0, \<lparr>s_id = 0, s_parent = None, s_children = [],
                   s_typename = Some ''axon'', s_typevalue = Some 2,
                   s_points = [(0, 0, 0), (1, 0, 0)], s_radiuses = [0, 1]\<rparr>)],
           m_soma = None\<rparr>\<rparr>)"
  by code_simp

text \<open>
  This is so on every input: with the value \<open>SWC_TYPES.SOMA\<close> has in the program, no
  soma record is made and no parsed morphology has a soma.
\<close>

lemma initLoop_no_soma:
  "initLoop None points (nodes, h, somaNodes) = Inr (nodes', h', somaNodes')
     \<Longrightarrow> somaNodes' = somaNodes"
proof (induction points arbitrary: nodes h somaNodes)
  case Nil
  then show ?case by simp
next
  case (Cons x points)
  then show ?case
    by (cases x) (auto simp: Let_def split: if_splits option.splits)
qed

lemma no_soma_is_ever_built:
  "initCollection SWC_TYPES_SOMA points = Inr (nodes, h, rawSoma) \<Longrightarrow> rawSoma = None"
  by (auto simp: initCollection_def SWC_TYPES_SOMA_def makeRawSoma_def
      split: sum.splits dest: initLoop_no_soma)

lemma parsed_morphology_has_no_soma:
  assumes "morphologyOf (parsePoints points) = Some m"
  shows "getSoma m = None"
proof -
  from assms obtain c where t: "TreeNodeCollection SWC_TYPES_SOMA points = Some (Inr c)"
    and cm: "c_morphology c = Some m"
    by (auto simp: morphologyOf_def parsePoints_def split: option.splits sum.splits)
  from t obtain nodes h rawSoma rawSections where
    i: "initCollection SWC_TYPES_SOMA points = Inr (nodes, h, rawSoma)"
    and b: "buildMorphologyObjects rawSoma rawSections = Inr c"
    by (auto simp: TreeNodeCollection_def split: sum.splits option.splits)
  from no_soma_is_ever_built [OF i] have "rawSoma = None" .
  with b cm show ?thesis
    by (auto simp: buildMorphologyObjects_def buildFromRawMorphology_def Let_def
        newMorphology_def getSoma_def split: if_splits option.splits sum.splits)
qed

text \<open>
  With the 1 of the table in its place, \<open>_initCollection\<close> would make the record the
  claim describes: the largest radius of the soma points, and their positions in file
  order, of which \<open>getCenter\<close> returns the single one or the mean.
\<close>

lemma length_setParent [simp]: "length (setParent soma h a p) = length h"
  by (simp add: setParent_def addChild_def)

lemma nth_update_same:
  assumes "f x = f (h ! i)"
  shows "f (h[i := x] ! n) = f (h ! n)"
  using assms by (cases "i < length h") (auto simp: nth_list_update list_update_beyond)

lemma ptOf_setParent: "ptOf (setParent soma h a p) n = ptOf h n"
proof -
  let ?h1 = "h[a := (h ! a)\<lparr>n_parent := Some p\<rparr>]"
  have 1: "ptOf ?h1 n = ptOf h n"
    unfolding ptOf_def by (simp add: nth_update_same)
  have 2: "ptOf (addChild soma ?h1 p a) n = ptOf ?h1 n"
    unfolding ptOf_def addChild_def by (simp add: nth_update_same)
  from 1 2 show ?thesis by (simp add: setParent_def)
qed

lemma initLoop_soma_samples:
  assumes "initLoop (Some t) points (nodes, h, somaNodes) = Inr (nodes', h', somaNodes')"
    and "\<forall>n \<in> set somaNodes. n < length h"
  shows "map (ptOf h') somaNodes' = map (ptOf h) somaNodes @ samplesOf t points"
  using assms
proof (induction points arbitrary: nodes h somaNodes)
  case Nil
  then show ?case by (simp add: samplesOf_def)
next
  case (Cons x points)
  show ?case
  proof (cases x)
    case None
    with Cons.prems show ?thesis by simp
  next
    case (Some q)
    let ?n = "newTreeNode (p_id q) (p_type q) (p_x q) (p_y q) (p_z q) (p_radius q)"
    let ?h1 = "h @ [?n]"
    let ?sn1 = "if Some (p_type q) = Some t then somaNodes @ [length h] else somaNodes"
    have in1: "\<forall>n \<in> set ?sn1. n < length ?h1" using Cons.prems(2) by (auto simp: less_Suc_eq)
    have pt1: "map (ptOf ?h1) ?sn1
               = map (ptOf h) somaNodes @ (if p_type q = t then [((p_x q, p_y q, p_z q), p_radius q)] else [])"
      using Cons.prems(2) by (auto simp: ptOf_def nth_append newTreeNode_def)
    from Cons.prems(1) Some obtain h2 where
      rest: "initLoop (Some t) points (registryPut (p_id q) (length h) nodes, h2, ?sn1)
               = Inr (nodes', h', somaNodes')"
      and h2: "h2 = ?h1 \<or> (\<exists>p. h2 = setParent (Some t) ?h1 (length h) p)"
      by (auto simp: Let_def split: if_splits option.splits)
    from h2 have len: "length h2 = length ?h1" by auto
    from h2 in1 have same: "map (ptOf h2) ?sn1 = map (ptOf ?h1) ?sn1"
      by (auto simp: ptOf_setParent)
    from in1 len have in2: "\<forall>n \<in> set ?sn1. n < length h2" by simp
    from Cons.IH [OF rest in2] same pt1 Some show ?thesis
      by (auto simp: samplesOf_def)
  qed
qed

lemma Math_max_Max: "rs \<noteq> [] \<Longrightarrow> Math_max rs = Max (set rs)"
proof -
  assume "rs \<noteq> []"
  then obtain r rest where rs: "rs = r # rest" by (cases rs) auto
  have "fold max rest r = Max (set (r # rest))"
    by (rule Max.set_eq_fold [symmetric])
  with rs show ?thesis by (simp add: Math_max_def)
qed

lemma soma_record_with_table_value:
  assumes "initCollection (Some t) points = Inr (nodes, h, rawSoma)"
    and "samplesOf t points \<noteq> []"
  shows "rawSoma = Some \<lparr>rs_id = 0, rs_type = ''soma'',
                         rs_radius = Max (set (map snd (samplesOf t points))),
                         rs_points = map fst (samplesOf t points)\<rparr>"
proof -
  from assms(1) obtain somaNodes where
    l: "initLoop (Some t) points ([], [], []) = Inr (nodes, h, somaNodes)"
    and r: "rawSoma = makeRawSoma h somaNodes"
    by (auto simp: initCollection_def split: sum.splits)
  from initLoop_soma_samples [OF l] have m: "map (ptOf h) somaNodes = samplesOf t points" by simp
  with assms(2) have ne: "somaNodes \<noteq> []" by auto
  have rad: "map (\<lambda>n. n_radius (h ! n)) somaNodes = map snd (samplesOf t points)"
    using m [symmetric] by (simp add: ptOf_def comp_def)
  have pos: "map (\<lambda>n. n_position (h ! n)) somaNodes = map fst (samplesOf t points)"
    using m [symmetric] by (simp add: ptOf_def comp_def)
  from assms(2) have "map snd (samplesOf t points) \<noteq> []" by simp
  from Math_max_Max [OF this] r ne rad pos show ?thesis
    by (simp add: makeRawSoma_def)
qed

lemma soma_centre_with_table_value:
  assumes "initCollection SWC_TYPES_table_SOMA points = Inr (nodes, h, rawSoma)"
    and "ps = map fst (samplesOf 1 points)" and "ps \<noteq> []"
  shows "\<exists>r. rawSoma = Some r
             \<and> soma_radius (Soma_initWithRawSection r) = Max (set (map snd (samplesOf 1 points)))
             \<and> Soma_getCenter (Soma_initWithRawSection r)
                 = Some (if length ps = 1 then ps ! 0
                         else (sum_list (map fst ps) / real (length ps),
                               sum_list (map (fst \<circ> snd) ps) / real (length ps),
                               sum_list (map (snd \<circ> snd) ps) / real (length ps)))"
proof -
  from assms(2,3) have ne: "samplesOf 1 points \<noteq> []" by auto
  from soma_record_with_table_value [OF assms(1) [unfolded SWC_TYPES_table_SOMA_def] ne]
  have r: "rawSoma = Some \<lparr>rs_id = 0, rs_type = ''soma'',
                           rs_radius = Max (set (map snd (samplesOf 1 points))),
                           rs_points = ps\<rparr>" using assms(2) by simp
  from assms(3) have "length ps = 1 \<or> length ps > 1" by (cases ps) auto
  with r show ?thesis
    by (auto simp: Soma_initWithRawSection_def Soma_getCenter_def Let_def)
qed

section \<open>Termination\<close>

text \<open>
  The loop of \<open>getNonSomaChildren\<close> never advances its index: it returns only when
  there is nothing to visit.
\<close>

lemma nonSomaLoop_returns_only_past_end:
  assumes "nonSomaLoop soma h children i acc = Some y"
  shows "\<not> i < length children"
  by (rule nonSomaLoop.raw_induct
        [where P = "\<lambda>soma h children i acc y. \<not> i < length children", OF _ assms])
     (auto split: if_splits)

lemma nonSomaLoop_diverges:
  "i < length children \<Longrightarrow> nonSomaLoop soma h children i acc = None"
  using nonSomaLoop_returns_only_past_end [of soma h children i acc]
  by (cases "nonSomaLoop soma h children i acc") auto

lemma getNonSomaChildren_diverges:
  assumes "n_hasSomaChildren (h ! this)" and "n_children (h ! this) \<noteq> []"
  shows "getNonSomaChildren soma h this = None"
  using assms by (simp add: getNonSomaChildren_def nonSomaLoop_diverges)

lemma selfParent_init:
  "initCollection SWC_TYPES_SOMA [swcPoint 1 2 0 0 0 1 1, swcPoint 2 2 0 0 0 1 1]
   = Inr ([(1, 0), (2, 1)], selfParentHeap, None)"
  by code_simp

lemma selfParent_first:
  "findFirstValid SWC_TYPES_SOMA selfParentHeap [(1, 0), (2, 1)]
     (Object_keys [(1, 0), (2, 1)])
   = Some (Inr (Some (0, [0, 1])))"
  by code_simp

lemma dive_selfParent_leaf:
  "dive soma selfParentHeap (Suc 0) nl = Some ([], nl @ [Suc 0])"
  by (subst dive.simps) (simp add: getNonSomaChildren_def selfParentHeap_def)

lemma dive_selfParent_self:
  "dive soma selfParentHeap 0 nl = Some ([0, 1], nl @ [0])"
  by (subst dive.simps) (simp add: getNonSomaChildren_def selfParentHeap_def)

lemma selfParent_parents:
  "n_parent (selfParentHeap ! 0) = Some 0"
  "n_parent (selfParentHeap ! Suc 0) = Some 0"
  by (simp_all add: selfParentHeap_def)

lemma build_selfParent_self:
  assumes "validParent po secs"
  shows "\<exists>sec secs1.
           buildRawSection soma selfParentHeap 0 po (secs, stack, cur)
             = Some (Inr (sec, secs1, stack @ [(0, Some cur), (1, Some cur)], cur + 1))
           \<and> length secs1 = length secs"
  using assms
  by (auto simp: buildRawSection_def dive_selfParent_self selfParent_parents Let_def
        pushChild_def truthy_def validParent_def split: option.splits)

lemma build_selfParent_leaf:
  assumes "validParent po secs"
  shows "\<exists>sec secs1.
           buildRawSection soma selfParentHeap 1 po (secs, stack, cur)
             = Some (Inr (sec, secs1, stack, cur + 1))
           \<and> length secs1 = length secs"
  using assms
  by (auto simp: buildRawSection_def dive_selfParent_leaf selfParent_parents Let_def
        pushChild_def truthy_def validParent_def split: option.splits)

text \<open>
  From a state of the cycle the loop body leads to a state of the cycle, so the loop
  returns from none of them.
\<close>

lemma selfParentCycle_never_returns:
  assumes "popLoop soma h st = Some y"
  shows "h = selfParentHeap \<longrightarrow> \<not> selfParentCycle st"
proof (rule popLoop.raw_induct
         [where P = "\<lambda>soma h st y. h = selfParentHeap \<longrightarrow> \<not> selfParentCycle st",
          OF _ assms],
       goal_cases)
  case (1 loop soma h st y)
  note IH = 1(1) and body = 1(2)
  show "h = selfParentHeap \<longrightarrow> \<not> selfParentCycle st"
  proof (intro impI notI)
    assume h: "h = selfParentHeap" and c: "selfParentCycle st"
    obtain secs stack cur where st: "st = (secs, stack, cur)" by (cases st)
    from c st obtain po po' where cur: "cur = length secs"
      and shape: "stack = [(0, po)] \<or> stack = [(0, po), (1, po')]"
      and vp: "validParent po secs" "validParent po' secs"
      by (auto simp: selfParentCycle_def)
    from shape show False
    proof
      assume s1: "stack = [(0, po)]"
      from build_selfParent_self [OF vp(1), of soma "[]" cur] obtain sec secs1 where
        b: "buildRawSection soma selfParentHeap 0 po (secs, [], cur)
              = Some (Inr (sec, secs1, [(0, Some cur), (1, Some cur)], cur + 1))"
        and len: "length secs1 = length secs" by auto
      from body st s1 h b
      have "loop soma selfParentHeap
              ((secs1 @ [sec])[sec_id sec := sec],
               [(0, Some cur), (1, Some cur)], cur + 1) = Some y" by simp
      from IH [OF this]
      have "\<not> selfParentCycle ((secs1 @ [sec])[sec_id sec := sec],
               [(0, Some cur), (1, Some cur)], cur + 1)" by simp
      then show False using cur len by (simp add: selfParentCycle_def validParent_def)
    next
      assume s2: "stack = [(0, po), (1, po')]"
      from build_selfParent_leaf [OF vp(2), of soma "[(0, po)]" cur] obtain sec secs1 where
        b: "buildRawSection soma selfParentHeap 1 po' (secs, [(0, po)], cur)
              = Some (Inr (sec, secs1, [(0, po)], cur + 1))"
        and len: "length secs1 = length secs" by auto
      from body st s2 h b
      have "loop soma selfParentHeap
              ((secs1 @ [sec])[sec_id sec := sec], [(0, po)], cur + 1) = Some y"
        by simp
      from IH [OF this]
      have "\<not> selfParentCycle ((secs1 @ [sec])[sec_id sec := sec], [(0, po)], cur + 1)"
        by simp
      then show False using cur len vp
        by (auto simp: selfParentCycle_def validParent_def split: option.splits)
    qed
  qed
qed

lemma selfParent_loop_diverges:
  "popLoop soma selfParentHeap ([], [(0, None), (Suc 0, None)], 0) = None"
proof (cases "popLoop soma selfParentHeap ([], [(0, None), (Suc 0, None)], 0)")
  case None
  then show ?thesis .
next
  case (Some y)
  from selfParentCycle_never_returns [OF Some]
  have "\<not> selfParentCycle ([], [(0, None), (Suc 0, None)], 0)" by simp
  then show ?thesis by (simp add: selfParentCycle_def validParent_def)
qed

lemma selfParent_buildSections:
  "buildSections SWC_TYPES_SOMA selfParentHeap [(1, 0), (2, 1)] = None"
  unfolding buildSections_def selfParent_first
  by (simp add: selfParent_loop_diverges)

lemma selfParent_points_diverge:
  "parsePoints [swcPoint 1 2 0 0 0 1 1, swcPoint 2 2 0 0 0 1 1] = None"
  unfolding parsePoints_def TreeNodeCollection_def selfParent_init
  by (simp only: sum.case prod.case selfParent_buildSections option.case)

lemma selfParent_text:
  "extractPoints decimalRound decimalFloat
     (''1 2 0 0 0 1 1'' @ [CHR 0x0A] @ ''2 2 0 0 0 1 1'')
   = [swcPoint 1 2 0 0 0 1 1, swcPoint 2 2 0 0 0 1 1]"
  by code_simp

lemma somaChain_init:
  "initCollection SWC_TYPES_table_SOMA
     [swcPoint 1 1 0 0 0 5 (- 1), swcPoint 2 1 1 0 0 5 1]
   = Inr ([(1, 0), (2, 1)], somaChainHeap,
          Some \<lparr>rs_id = 0, rs_type = ''soma'', rs_radius = 5,
                rs_points = [(0, 0, 0), (1, 0, 0)]\<rparr>)"
  by code_simp

lemma somaChain_first:
  "findFirstValid soma somaChainHeap [(1, 0), (2, 1)] (Object_keys [(1, 0), (2, 1)]) = None"
proof -
  have k: "Object_keys [(1, 0), (2, 1)] = [1, 2]" by code_simp
  have g: "getNonSomaChildren soma somaChainHeap 0 = None"
    by (rule getNonSomaChildren_diverges) (simp_all add: somaChainHeap_def)
  show ?thesis unfolding k by (simp add: g)
qed

lemma somaChain_diverges:
  "TreeNodeCollection SWC_TYPES_table_SOMA
     [swcPoint 1 1 0 0 0 5 (- 1), swcPoint 2 1 1 0 0 5 1] = None"
  unfolding TreeNodeCollection_def somaChain_init buildSections_def
  by (simp only: sum.case prod.case somaChain_first option.case)

text \<open>
  Claim C2. Every parse of a finite text should end, by completing or by failing on a
  parent that is not registered; in particular on inputs with a node that has a
  soma-typed child. The code has two ways of not ending. A point that names itself as
  parent is registered before the lookup, so nothing fails, and the node becomes its own
  child: on the two lines below the fork at that node yields the node itself again, and
  the pop loop builds sections for ever. And the loop of \<open>getNonSomaChildren\<close>
  advances its index by 0 (\<open>i += 0\<close>): it never ends on a node that has a soma child. In
  the program no node has one, because \<open>SWC_TYPES.SOMA\<close> is \<open>undefined\<close>; with the 1 of
  the table a chain of two soma points does not end.
\<close>

theorem parse_does_not_always_terminate:
  "parse (''1 2 0 0 0 1 1'' @ [CHR 0x0A] @ ''2 2 0 0 0 1 1'') = None
   \<and> TreeNodeCollection SWC_TYPES_table_SOMA
       [swcPoint 1 1 0 0 0 5 (- 1), swcPoint 2 1 1 0 0 5 1] = None"
  unfolding parse_def selfParent_text
  by (simp only: selfParent_points_diverge somaChain_diverges)

section \<open>Lines with too few fields\<close>

text \<open>
  Claim C3. \<open>extractPoints\<close> should return the accepted records in file order, a line
  with fewer than 7 fields adding nothing to the result and causing no error. The code
  stores the record of line \<open>i\<close> with \<open>swcPoints[i] = ...\<close>: a line that is dropped
  before an accepted one leaves an empty slot in the array. \<open>_initCollection\<close> walks
  the array by index and reads \<open>points[i][0]\<close>, which throws on the empty slot. On the
  two lines below, the first of 5 fields, the result has two slots and the parse fails.
  A blank line between two records has the same effect, since the expression for blank
  lines leaves one empty line behind.
\<close>

theorem short_line_leaves_empty_slot:
  "extractPoints decimalRound decimalFloat
     (''1 1 0 0 0'' @ [CHR 0x0A] @ ''2 1 0 0 0 5 -1'')
   = [None, swcPoint 2 1 0 0 0 5 (- 1)]
   \<and> parse (''1 1 0 0 0'' @ [CHR 0x0A] @ ''2 1 0 0 0 5 -1'') = Some (Inl TypeError)"
  by code_simp

lemma blank_line_leaves_empty_slot:
  "extractPoints decimalRound decimalFloat
     (''1 1 0 0 0 5 -1'' @ [CHR 0x0A, CHR 0x0A] @ ''2 2 1 0 0 1 1'')
   = [swcPoint 1 1 0 0 0 5 (- 1), None, swcPoint 2 2 1 0 0 1 1]
   \<and> parse (''1 1 0 0 0 5 -1'' @ [CHR 0x0A, CHR 0x0A] @ ''2 2 1 0 0 1 1'')
     = Some (Inl TypeError)"
  by code_simp

text \<open>
  In general the result of \<open>extractPoints\<close> is the list of the slots of the lines, cut
  after the last filled slot: the accepted records are in file order, each at the index
  of its line, and every line dropped before an accepted line leaves an empty slot.
\<close>

lemma dropTrailingEmpty_replicate: "dropTrailingEmpty (replicate n None) = []"
  by (simp add: dropTrailingEmpty_def dropWhile_eq_Nil_conv)

lemma dropTrailingEmpty_Some:
  "dropTrailingEmpty (xs @ Some v # ys) = xs @ Some v # dropTrailingEmpty ys"
  by (simp add: dropTrailingEmpty_def dropWhile_append dropWhile_eq_Nil_conv)

lemma extractLoop_slots:
  "length acc \<le> i \<Longrightarrow>
   extractLoop rf pf lines i acc
   = acc @ dropTrailingEmpty (replicate (i - length acc) None @ map (slotOf rf pf) lines)"
proof (induction lines arbitrary: i acc)
  case Nil
  then show ?case by (simp add: dropTrailingEmpty_replicate)
next
  case (Cons l lines)
  show ?case
  proof (cases "length (rowOf l) \<ge> 7")
    case True
    let ?v = "pointOfRow rf pf (rowOf l)"
    let ?acc = "arraySet acc i ?v"
    from Cons.prems have a: "?acc = acc @ replicate (i - length acc) None @ [Some ?v]"
      by (auto simp: arraySet_def)
    then have len: "length ?acc = i + 1" using Cons.prems by simp
    then have "length ?acc \<le> i + 1" by simp
    from Cons.IH [OF this] len
    have "extractLoop rf pf lines (i + 1) ?acc
          = ?acc @ dropTrailingEmpty (map (slotOf rf pf) lines)" by simp
    moreover from True have "slotOf rf pf l = Some ?v" by (simp add: slotOf_def)
    ultimately show ?thesis using True a
      by (simp add: dropTrailingEmpty_Some)
  next
    case False
    from Cons.prems have le: "length acc \<le> i + 1" by simp
    have r: "replicate (Suc i - length acc) (None :: point option) @ xs
             = replicate (i - length acc) None @ None # xs" for xs
      using Cons.prems by (simp add: Suc_diff_le replicate_app_Cons_same)
    from False have "slotOf rf pf l = None" by (simp add: slotOf_def)
    with Cons.IH [OF le] False show ?thesis
      by (simp add: r del: replicate_Suc)
  qed
qed

lemma extractPoints_slots:
  "extractPoints rf pf swcStr = dropTrailingEmpty (map (slotOf rf pf) (cleanedLines swcStr))"
  by (simp add: extractPoints_def extractLoop_slots)

lemma dropped_line_leaves_empty_slot:
  assumes "i < j" and "j < length (cleanedLines swcStr)"
    and "length (rowOf (cleanedLines swcStr ! i)) < 7"
    and "length (rowOf (cleanedLines swcStr ! j)) \<ge> 7"
  shows "i < length (extractPoints rf pf swcStr) \<and> extractPoints rf pf swcStr ! i = None"
proof -
  let ?ls = "cleanedLines swcStr"
  let ?v = "pointOfRow rf pf (rowOf (?ls ! j))"
  have sj: "slotOf rf pf (?ls ! j) = Some ?v" using assms(4) by (simp add: slotOf_def)
  have "map (slotOf rf pf) ?ls
        = map (slotOf rf pf) (take j ?ls @ ?ls ! j # drop (Suc j) ?ls)"
    by (rule arg_cong [OF id_take_nth_drop [OF assms(2)]])
  then have split: "map (slotOf rf pf) ?ls
        = map (slotOf rf pf) (take j ?ls) @ Some ?v # map (slotOf rf pf) (drop (Suc j) ?ls)"
    by (simp add: sj)
  have "extractPoints rf pf swcStr
        = map (slotOf rf pf) (take j ?ls) @ Some ?v # dropTrailingEmpty (map (slotOf rf pf) (drop (Suc j) ?ls))"
    unfolding extractPoints_slots split by (rule dropTrailingEmpty_Some)
  moreover have "slotOf rf pf (?ls ! i) = None" using assms(3) by (simp add: slotOf_def)
  then have "map (slotOf rf pf) (take j ?ls) ! i = None" "i < length (take j ?ls)"
    using assms by simp_all
  ultimately show ?thesis using assms(1,2) by (simp add: nth_append)
qed

section \<open>The heap of nodes\<close>

text \<open>\<open>_initCollection\<close> keeps the links of the heap in agreement.\<close>

lemma registryPut_set: "set (registryPut k a r) \<subseteq> insert (k, a) (set r)"
  by (induction k a r rule: registryPut.induct) auto

lemma registered_put:
  "registered nodes h \<Longrightarrow> registered (registryPut k (length h) nodes) (h @ [n])"
  using registryPut_set [of k "length h" nodes]
  by (fastforce simp: registered_def)

lemma linked_alloc: "linked h \<Longrightarrow> linked (h @ [newTreeNode i t x y z r])"
  by (auto simp: linked_def nth_append newTreeNode_def less_Suc_eq)

lemma linked_setParent:
  assumes l: "linked h" and a: "a < length h" and p: "p < length h"
    and fresh: "\<forall>b < length h. a \<notin> set (n_children (h ! b))"
  shows "linked (setParent soma h a p)"
  unfolding linked_def
proof (intro allI impI ballI)
  fix b c
  assume b: "b < length (setParent soma h a p)"
    and c: "c \<in> set (n_children (setParent soma h a p ! b))"
  from b have b': "b < length h" by simp
  have ch: "set (n_children (setParent soma h a p ! b)) \<subseteq> set (n_children (h ! b)) \<union> (if b = p then {a} else {})"
    using a p b' by (auto simp: setParent_def addChild_def nth_list_update split: if_splits)
  have par: "\<And>d. d < length h \<Longrightarrow> n_parent (setParent soma h a p ! d) = (if d = a then Some p else n_parent (h ! d))"
    using a p by (auto simp: setParent_def addChild_def nth_list_update)
  show "c < length (setParent soma h a p) \<and> n_parent (setParent soma h a p ! c) = Some b"
  proof (cases "c \<in> set (n_children (h ! b))")
    case True
    with l b' have "c < length h" "n_parent (h ! c) = Some b" by (auto simp: linked_def)
    moreover from True fresh b' have "c \<noteq> a" by auto
    ultimately show ?thesis by (simp add: par)
  next
    case False
    with c ch have "b = p" "c = a" by (auto split: if_splits)
    with a show ?thesis by (simp add: par)
  qed
qed

lemma initLoop_linked:
  assumes "initLoop soma points (nodes, h, somaNodes) = Inr (nodes', h', somaNodes')"
    and "linked h" and "registered nodes h"
  shows "linked h' \<and> registered nodes' h'"
  using assms
proof (induction points arbitrary: nodes h somaNodes)
  case Nil
  then show ?case by simp
next
  case (Cons x points)
  show ?case
  proof (cases x)
    case None
    with Cons.prems show ?thesis by simp
  next
    case (Some q)
    let ?n = "newTreeNode (p_id q) (p_type q) (p_x q) (p_y q) (p_z q) (p_radius q)"
    let ?h1 = "h @ [?n]"
    let ?nodes1 = "registryPut (p_id q) (length h) nodes"
    have l1: "linked ?h1" using Cons.prems(2) by (rule linked_alloc)
    have r1: "registered ?nodes1 ?h1" using Cons.prems(3) by (rule registered_put)
    have fresh: "\<forall>b < length ?h1. length h \<notin> set (n_children (?h1 ! b))"
      using Cons.prems(2)
      by (auto simp: linked_def nth_append newTreeNode_def less_Suc_eq)
    show ?thesis
    proof (cases "p_parentId q = - 1")
      case True
      with Cons.prems(1) Some show ?thesis
        using Cons.IH [OF _ l1 r1] by (simp add: Let_def)
    next
      case False
      with Cons.prems(1) Some obtain p where
        p: "map_of ?nodes1 (p_parentId q) = Some p"
        and rest: "initLoop soma points (?nodes1, setParent soma ?h1 (length h) p,
              (if Some (p_type q) = soma then somaNodes @ [length h] else somaNodes))
             = Inr (nodes', h', somaNodes')"
        by (auto simp: Let_def split: option.splits)
      from p have "(p_parentId q, p) \<in> set ?nodes1" by (rule map_of_SomeD)
      with r1 have pl: "p < length ?h1" by (auto simp: registered_def)
      have l2: "linked (setParent soma ?h1 (length h) p)"
        by (rule linked_setParent [OF l1 _ pl fresh]) simp
      have r2: "registered ?nodes1 (setParent soma ?h1 (length h) p)"
        using r1 by (simp add: registered_def)
      from Cons.IH [OF rest l2 r2] show ?thesis .
    qed
  qed
qed

lemma initCollection_linked:
  assumes "initCollection soma points = Inr (nodes, h, rawSoma)"
  shows "linked h \<and> registered nodes h"
proof -
  from assms obtain somaNodes where
    "initLoop soma points ([], [], []) = Inr (nodes, h, somaNodes)"
    by (auto simp: initCollection_def split: sum.splits)
  from initLoop_linked [OF this] show ?thesis by (simp add: linked_def registered_def)
qed

text \<open>
  \<open>getNonSomaChildren\<close> returns children of the node. A dive returns the list it was
  given followed by the nodes it walked, and the nodes it yields are children of the last
  node walked.
\<close>

lemma nonSomaLoop_past_end:
  "\<not> i < length children \<Longrightarrow> nonSomaLoop soma h children i acc = Some acc"
  by (subst nonSomaLoop.simps) simp

lemma getNonSomaChildren_subset:
  assumes "getNonSomaChildren soma h this = Some cs"
  shows "set cs \<subseteq> set (n_children (h ! this))"
proof (cases "n_hasSomaChildren (h ! this)")
  case False
  with assms show ?thesis by (simp add: getNonSomaChildren_def)
next
  case True
  with assms have r: "nonSomaLoop soma h (n_children (h ! this)) 0 [] = Some cs"
    by (simp add: getNonSomaChildren_def)
  from nonSomaLoop_returns_only_past_end [OF r] have e: "\<not> 0 < length (n_children (h ! this))" .
  from nonSomaLoop_past_end [OF e, of soma h "[]"] r have "cs = []" by simp
  then show ?thesis by simp
qed

lemma dive_result:
  assumes "dive soma h this nodeList = Some r"
  shows "linked h \<longrightarrow> this < length h \<longrightarrow>
         (\<exists>mid b. snd r = nodeList @ mid @ [b] \<and> b < length h
                  \<and> set (fst r) \<subseteq> set (n_children (h ! b)))"
proof (rule dive.raw_induct
         [where P = "\<lambda>soma h this nodeList r. linked h \<longrightarrow> this < length h \<longrightarrow>
            (\<exists>mid b. snd r = nodeList @ mid @ [b] \<and> b < length h
                  \<and> set (fst r) \<subseteq> set (n_children (h ! b)))", OF _ assms],
       goal_cases)
  case (1 dive' soma h this nodeList r)
  note IH = 1(1) and body = 1(2)
  show ?case
  proof (intro impI)
    assume l: "linked h" and t: "this < length h"
    from body obtain children where g: "getNonSomaChildren soma h this = Some children"
      by (auto split: option.splits)
    note sub = getNonSomaChildren_subset [OF g]
    show "\<exists>mid b. snd r = nodeList @ mid @ [b] \<and> b < length h
                  \<and> set (fst r) \<subseteq> set (n_children (h ! b))"
    proof (cases "length children = 1 \<and> n_type (h ! (children ! 0)) = n_type (h ! this)")
      case True
      with body g have rec: "dive' soma h (children ! 0) (nodeList @ [this]) = Some r" by simp
      from True have "children ! 0 \<in> set children" by (cases children) auto
      with sub l t have "children ! 0 < length h" by (auto simp: linked_def)
      with IH [OF rec] l obtain mid b where
        "snd r = (nodeList @ [this]) @ mid @ [b]" "b < length h"
        "set (fst r) \<subseteq> set (n_children (h ! b))" by blast
      then have "snd r = nodeList @ (this # mid) @ [b]" by simp
      with \<open>b < length h\<close> \<open>set (fst r) \<subseteq> set (n_children (h ! b))\<close> show ?thesis by blast
    next
      case False
      with body g have "r = ([], nodeList @ [this]) \<or> r = (children, nodeList @ [this])"
        by (auto split: if_splits)
      with sub t show ?thesis by (intro exI [of _ "[]"] exI [of _ this]) auto
    qed
  qed
qed

lemma findFirstValid_result:
  assumes "findFirstValid soma h nodes ks = Some (Inr (Some (n, cs)))" and "registered nodes h"
  shows "n < length h \<and> getNonSomaChildren soma h n = Some cs \<and> cs \<noteq> []"
  using assms
proof (induction ks)
  case Nil
  then show ?case by simp
next
  case (Cons k ks)
  from Cons.prems(1) obtain a cs' where a: "map_of nodes k = Some a"
    and g: "getNonSomaChildren soma h a = Some cs'"
    by (auto split: option.splits)
  from a have "(k, a) \<in> set nodes" by (rule map_of_SomeD)
  with Cons.prems(2) have al: "a < length h" by (auto simp: registered_def)
  show ?case
  proof (cases "length cs' > 0")
    case True
    with Cons.prems(1) a g al show ?thesis by simp
  next
    case False
    with Cons.prems(1) a g have "findFirstValid soma h nodes ks = Some (Inr (Some (n, cs)))"
      by simp
    from Cons.IH [OF this Cons.prems(2)] show ?thesis .
  qed
qed

text \<open>
  A run has at least its starting node, and a node has one run at most.
  \<open>_initCollection\<close> keeps the flags right, so that \<open>getNonSomaChildren\<close>, when it
  returns, returns the structural children; and a dive that returns has walked the run
  of its node and yields the forks of that run.
\<close>

lemma walk_nonempty: "walk soma h n path forks \<Longrightarrow> path \<noteq> []"
  by (erule walk.cases) auto

lemma walk_deterministic:
  "walk soma h n path forks \<Longrightarrow> walk soma h n path' forks' \<Longrightarrow> path' = path \<and> forks' = forks"
proof (induction arbitrary: path' forks' rule: walk.induct)
  case (walk_on soma h n c path forks)
  from walk_on.prems walk_on.hyps(1,2) obtain p where
    "path' = n # p" "walk soma h c p forks'"
    by (auto elim: walk.cases)
  with walk_on.IH show ?case by auto
next
  case (walk_cut soma h n c)
  from walk_cut.prems walk_cut.hyps show ?case by (auto elim: walk.cases)
next
  case (walk_end soma h n)
  from walk_end.prems walk_end.hyps show ?case by (auto elim: walk.cases)
qed

lemma flagged_alloc:
  "linked h \<Longrightarrow> flagged soma h \<Longrightarrow> flagged soma (h @ [newTreeNode i t x y z r])"
  by (auto simp: flagged_def linked_def nth_append newTreeNode_def less_Suc_eq)

lemma flagged_setParent:
  assumes f: "flagged soma h" and a: "a < length h" and p: "p < length h"
  shows "flagged soma (setParent soma h a p)"
  unfolding flagged_def
proof (intro allI impI ballI)
  fix b c
  assume b: "b < length (setParent soma h a p)"
    and nf: "\<not> n_hasSomaChildren (setParent soma h a p ! b)"
    and c: "c \<in> set (n_children (setParent soma h a p ! b))"
  from b have b': "b < length h" by simp
  have ty: "\<And>d. n_type (setParent soma h a p ! d) = n_type (h ! d)"
    using a p by (auto simp: setParent_def addChild_def nth_list_update)
  then have so: "\<And>d. isSoma soma (setParent soma h a p ! d) = isSoma soma (h ! d)"
    by (simp add: isSoma_def)
  have fl: "\<not> n_hasSomaChildren (h ! b)"
    using nf a p b' by (auto simp: setParent_def addChild_def nth_list_update split: if_splits)
  have ch: "c \<in> set (n_children (h ! b)) \<or> (c = a \<and> \<not> isSoma soma (h ! a))"
    using c nf a p b'
    by (auto simp: setParent_def addChild_def nth_list_update isSoma_def split: if_splits)
  with f fl b' show "\<not> isSoma soma (setParent soma h a p ! c)"
    by (auto simp: so flagged_def)
qed

lemma initLoop_flagged:
  assumes "initLoop soma points (nodes, h, somaNodes) = Inr (nodes', h', somaNodes')"
    and "linked h" and "registered nodes h" and "flagged soma h"
  shows "flagged soma h'"
  using assms
proof (induction points arbitrary: nodes h somaNodes)
  case Nil
  then show ?case by simp
next
  case (Cons x points)
  show ?case
  proof (cases x)
    case None
    with Cons.prems show ?thesis by simp
  next
    case (Some q)
    let ?n = "newTreeNode (p_id q) (p_type q) (p_x q) (p_y q) (p_z q) (p_radius q)"
    let ?h1 = "h @ [?n]"
    let ?nodes1 = "registryPut (p_id q) (length h) nodes"
    have l1: "linked ?h1" using Cons.prems(2) by (rule linked_alloc)
    have r1: "registered ?nodes1 ?h1" using Cons.prems(3) by (rule registered_put)
    have f1: "flagged soma ?h1" using Cons.prems(2,4) by (rule flagged_alloc)
    have fresh: "\<forall>b < length ?h1. length h \<notin> set (n_children (?h1 ! b))"
      using Cons.prems(2)
      by (auto simp: linked_def nth_append newTreeNode_def less_Suc_eq)
    show ?thesis
    proof (cases "p_parentId q = - 1")
      case True
      with Cons.prems(1) Some show ?thesis
        using Cons.IH [OF _ l1 r1 f1] by (simp add: Let_def)
    next
      case False
      with Cons.prems(1) Some obtain p where
        p: "map_of ?nodes1 (p_parentId q) = Some p"
        and rest: "initLoop soma points (?nodes1, setParent soma ?h1 (length h) p,
              (if Some (p_type q) = soma then somaNodes @ [length h] else somaNodes))
             = Inr (nodes', h', somaNodes')"
        by (auto simp: Let_def split: option.splits)
      from p have "(p_parentId q, p) \<in> set ?nodes1" by (rule map_of_SomeD)
      with r1 have pl: "p < length ?h1" by (auto simp: registered_def)
      have l2: "linked (setParent soma ?h1 (length h) p)"
        by (rule linked_setParent [OF l1 _ pl fresh]) simp
      have r2: "registered ?nodes1 (setParent soma ?h1 (length h) p)"
        using r1 by (simp add: registered_def)
      have f2: "flagged soma (setParent soma ?h1 (length h) p)"
        by (rule flagged_setParent [OF f1 _ pl]) simp
      from Cons.IH [OF rest l2 r2 f2] show ?thesis .
    qed
  qed
qed

lemma initCollection_flagged:
  assumes "initCollection soma points = Inr (nodes, h, rawSoma)"
  shows "flagged soma h"
proof -
  from assms obtain somaNodes where
    "initLoop soma points ([], [], []) = Inr (nodes, h, somaNodes)"
    by (auto simp: initCollection_def split: sum.splits)
  from initLoop_flagged [OF this] show ?thesis
    by (simp add: linked_def registered_def flagged_def)
qed

lemma getNonSomaChildren_structural:
  assumes g: "getNonSomaChildren soma h n = Some cs" and f: "flagged soma h"
    and n: "n < length h"
  shows "cs = nonSomaChildren soma h n"
proof (cases "n_hasSomaChildren (h ! n)")
  case False
  with g have cs: "cs = n_children (h ! n)" by (simp add: getNonSomaChildren_def)
  from f n False have "\<forall>c \<in> set (n_children (h ! n)). \<not> isSoma soma (h ! c)"
    by (simp add: flagged_def)
  then have "filter (\<lambda>c. \<not> isSoma soma (h ! c)) (n_children (h ! n)) = n_children (h ! n)"
    by (simp add: filter_id_conv)
  with cs show ?thesis by (simp add: nonSomaChildren_def)
next
  case True
  with g have r: "nonSomaLoop soma h (n_children (h ! n)) 0 [] = Some cs"
    by (simp add: getNonSomaChildren_def)
  from nonSomaLoop_returns_only_past_end [OF r] have e: "\<not> 0 < length (n_children (h ! n))" .
  from nonSomaLoop_past_end [OF e, of soma h "[]"] r have "cs = []" by simp
  with e show ?thesis by (simp add: nonSomaChildren_def)
qed

lemma dive_walk:
  assumes "dive soma h this nodeList = Some r"
  shows "linked h \<longrightarrow> flagged soma h \<longrightarrow> this < length h \<longrightarrow>
         (\<exists>path. snd r = nodeList @ path \<and> walk soma h this path (fst r)
                 \<and> (\<forall>c \<in> set (fst r). c < length h))"
proof (rule dive.raw_induct
         [where P = "\<lambda>soma h this nodeList r. linked h \<longrightarrow> flagged soma h \<longrightarrow> this < length h \<longrightarrow>
            (\<exists>path. snd r = nodeList @ path \<and> walk soma h this path (fst r)
                 \<and> (\<forall>c \<in> set (fst r). c < length h))", OF _ assms],
       goal_cases)
  case (1 dive' soma h this nodeList r)
  note IH = 1(1) and body = 1(2)
  show ?case
  proof (intro impI)
    assume l: "linked h" and f: "flagged soma h" and t: "this < length h"
    from body obtain children where g: "getNonSomaChildren soma h this = Some children"
      by (auto split: option.splits)
    note sub = getNonSomaChildren_subset [OF g]
    from getNonSomaChildren_structural [OF g f t]
    have st: "children = nonSomaChildren soma h this" .
    from sub l t have rng: "\<forall>c \<in> set children. c < length h" by (auto simp: linked_def)
    show "\<exists>path. snd r = nodeList @ path \<and> walk soma h this path (fst r)
                 \<and> (\<forall>c \<in> set (fst r). c < length h)"
    proof (cases "length children = 1")
      case True
      then obtain c where c: "children = [c]" by (cases children) auto
      show ?thesis
      proof (cases "n_type (h ! c) = n_type (h ! this)")
        case same: True
        with body g c have rec: "dive' soma h c (nodeList @ [this]) = Some r" by simp
        from rng c have "c < length h" by simp
        with IH [OF rec] l f obtain path where
          p: "snd r = (nodeList @ [this]) @ path" and w: "walk soma h c path (fst r)"
          and r: "\<forall>c \<in> set (fst r). c < length h" by blast
        from st c have "nonSomaChildren soma h this = [c]" by simp
        from this same w have "walk soma h this (this # path) (fst r)" by (rule walk_on)
        with p r show ?thesis by (intro exI [of _ "this # path"]) simp
      next
        case diff: False
        with body g c have r: "r = ([], nodeList @ [this])" by simp
        from st c have "nonSomaChildren soma h this = [c]" by simp
        from this diff have "walk soma h this [this] []" by (rule walk_cut)
        with r show ?thesis by (intro exI [of _ "[this]"]) simp
      qed
    next
      case False
      with body g have r: "r = (children, nodeList @ [this])" by simp
      from False st have "length (nonSomaChildren soma h this) \<noteq> 1" by simp
      then have "walk soma h this [this] (nonSomaChildren soma h this)" by (rule walk_end)
      with r st rng show ?thesis by (intro exI [of _ "[this]"]) simp
    qed
  qed
qed

section \<open>Continuity of the sections\<close>

lemma pushChild_keeps:
  assumes "pushChild secs p c = Inr secs1"
  shows "length secs1 = length secs \<and>
         (\<forall>k < length secs. sec_points (secs1 ! k) = sec_points (secs ! k)
            \<and> sec_parent (secs1 ! k) = sec_parent (secs ! k)
            \<and> sec_id (secs1 ! k) = sec_id (secs ! k))"
  using assms by (auto simp: pushChild_def nth_list_update split: if_splits)

lemma buildRawSection_result:
  assumes "buildRawSection soma h n po (secs, stack, cur) = Some (Inr (sec, secs1, stack1, cur1))"
  shows "\<exists>ys nl.
           dive soma h n (case n_parent (h ! n) of Some p \<Rightarrow> [p] | None \<Rightarrow> []) = Some (ys, nl)
           \<and> sec_points sec = (if po = None \<and> nl \<noteq> [] then zeroFirstRadius (map (ptOf h) nl)
                               else map (ptOf h) nl)
           \<and> sec_id sec = cur \<and> sec_parent sec = po \<and> sec_children sec = []
           \<and> sec_typevalue sec = n_type (h ! n)
           \<and> stack1 = stack @ map (\<lambda>y. (y, Some cur)) ys \<and> cur1 = cur + 1
           \<and> length secs1 = length secs
           \<and> (\<forall>k < length secs. sec_points (secs1 ! k) = sec_points (secs ! k)
                 \<and> sec_parent (secs1 ! k) = sec_parent (secs ! k)
                 \<and> sec_id (secs1 ! k) = sec_id (secs ! k))"
proof -
  from assms obtain ys nl where
    d: "dive soma h n (case n_parent (h ! n) of Some p \<Rightarrow> [p] | None \<Rightarrow> []) = Some (ys, nl)"
    by (auto simp: buildRawSection_def split: option.splits)
  have pt: "map (\<lambda>n. (n_position (h ! n), n_radius (h ! n))) nl = map (ptOf h) nl"
    by (simp add: ptOf_def)
  from assms d have A: "sec_points sec = (if po = None \<and> nl \<noteq> [] then zeroFirstRadius (map (ptOf h) nl)
                               else map (ptOf h) nl)
           \<and> sec_id sec = cur \<and> sec_parent sec = po \<and> sec_children sec = []
           \<and> sec_typevalue sec = n_type (h ! n)
           \<and> stack1 = stack @ map (\<lambda>y. (y, Some cur)) ys \<and> cur1 = cur + 1"
    by (auto simp: buildRawSection_def Let_def pt split: sum.splits if_splits)
  have B: "length secs1 = length secs
           \<and> (\<forall>k < length secs. sec_points (secs1 ! k) = sec_points (secs ! k)
                 \<and> sec_parent (secs1 ! k) = sec_parent (secs ! k)
                 \<and> sec_id (secs1 ! k) = sec_id (secs ! k))"
  proof (cases "truthy po")
    case True
    with assms d have "pushChild secs (the po) cur = Inr secs1"
      by (auto simp: buildRawSection_def Let_def split: sum.splits)
    then show ?thesis by (rule pushChild_keeps)
  next
    case False
    with assms d have "secs1 = secs"
      by (auto simp: buildRawSection_def Let_def)
    then show ?thesis by simp
  qed
  from d A B show ?thesis by blast
qed

lemma last_zeroFirstRadius:
  "2 \<le> length ps \<Longrightarrow> last (zeroFirstRadius ps) = last ps"
  by (cases ps) (auto simp: zeroFirstRadius_def last_conv_nth)

text \<open>
  When \<open>currentSectionId\<close> is the number of sections, as it is all along the loop,
  \<open>sections[section.id] = section\<close> writes the section where \<open>push\<close> has just put it.
\<close>

lemma assignment_at_pushed_index:
  assumes "buildRawSection soma h n po (secs, stack, length secs)
             = Some (Inr (sec, secs1, stack1, cur1))"
  shows "(secs1 @ [sec])[sec_id sec := sec] = secs1 @ [sec] \<and> cur1 = length (secs1 @ [sec])"
  using buildRawSection_result [OF assms] by (auto simp: list_update_append)

lemma buildInv_step:
  assumes inv: "buildInv h (secs, stack, cur)" and l: "linked h" and ne: "stack \<noteq> []"
    and b: "buildRawSection soma h (fst (last stack)) (snd (last stack))
              (secs, butlast stack, cur) = Some (Inr (sec, secs1, stack1, cur1))"
  shows "buildInv h ((secs1 @ [sec])[sec_id sec := sec], stack1, cur1)"
proof -
  let ?n = "fst (last stack)" and ?po = "snd (last stack)"
  from inv have cur: "cur = length secs" and cont: "continuous secs"
    and anch: "\<forall>e \<in> set stack. anchored h secs e" by (auto simp: buildInv_def)
  from ne anch have top: "anchored h secs (?n, ?po)" by simp
  then have n: "?n < length h" by (simp add: anchored_def)
  from top obtain pn where pn: "n_parent (h ! ?n) = Some pn"
    by (auto simp: anchored_def split: option.splits)
  from buildRawSection_result [OF b] pn obtain ys nl where
    d: "dive soma h ?n [pn] = Some (ys, nl)"
    and pts: "sec_points sec = (if ?po = None \<and> nl \<noteq> [] then zeroFirstRadius (map (ptOf h) nl)
                               else map (ptOf h) nl)"
    and sid: "sec_id sec = cur" and spar: "sec_parent sec = ?po"
    and st1: "stack1 = butlast stack @ map (\<lambda>y. (y, Some cur)) ys" and c1: "cur1 = cur + 1"
    and len: "length secs1 = length secs"
    and keep: "\<forall>k < length secs. sec_points (secs1 ! k) = sec_points (secs ! k)
                 \<and> sec_parent (secs1 ! k) = sec_parent (secs ! k)
                 \<and> sec_id (secs1 ! k) = sec_id (secs ! k)"
    by auto
  from dive_result [OF d] l n obtain mid b where
    nl: "nl = [pn] @ mid @ [b]" and bl: "b < length h"
    and ysub: "set ys \<subseteq> set (n_children (h ! b))" by auto
  have len2: "2 \<le> length (map (ptOf h) nl)" using nl by simp
  have lastp: "last (sec_points sec) = ptOf h b"
    using pts nl len2 by (simp add: last_zeroFirstRadius)
  have nonempty: "sec_points sec \<noteq> []"
    using pts nl by (auto simp: zeroFirstRadius_def)
  have hdp: "hd (sec_points sec) = ptOf h pn" if "?po \<noteq> None"
    using pts nl that by simp
  let ?secs' = "secs1 @ [sec]"
  have upd: "(secs1 @ [sec])[sec_id sec := sec] = ?secs'"
    using sid cur len by (simp add: list_update_append)
  have old: "\<And>k. k < length secs \<Longrightarrow> sec_points (?secs' ! k) = sec_points (secs ! k)
                 \<and> sec_parent (?secs' ! k) = sec_parent (secs ! k)"
    using keep len by (simp add: nth_append)
  have new: "?secs' ! length secs = sec" using len by (simp add: nth_append)
  have cont': "continuous ?secs'"
    unfolding continuous_def
  proof (intro allI impI)
    fix k p
    assume k: "k < length ?secs'" and par: "sec_parent (?secs' ! k) = Some p"
    show "p < length ?secs' \<and> sec_points (?secs' ! k) \<noteq> [] \<and> sec_points (?secs' ! p) \<noteq> []
          \<and> hd (sec_points (?secs' ! k)) = last (sec_points (?secs' ! p))"
    proof (cases "k < length secs")
      case True
      with par old have "sec_parent (secs ! k) = Some p" by simp
      with cont True have "p < length secs" "sec_points (secs ! k) \<noteq> []"
        "sec_points (secs ! p) \<noteq> []" "hd (sec_points (secs ! k)) = last (sec_points (secs ! p))"
        by (auto simp: continuous_def)
      with True old len show ?thesis by simp
    next
      case False
      with k len have keq: "k = length secs" by simp
      with par new spar have po: "?po = Some p" by simp
      with top obtain b' where "p < length secs" "sec_points (secs ! p) \<noteq> []"
        "n_parent (h ! ?n) = Some b'" "last (sec_points (secs ! p)) = ptOf h b'"
        by (auto simp: anchored_def)
      with pn hdp po keq new old nonempty len show ?thesis by simp
    qed
  qed
  have anch': "\<forall>e \<in> set stack1. anchored h ?secs' e"
  proof
    fix e assume e: "e \<in> set stack1"
    show "anchored h ?secs' e"
    proof (cases "e \<in> set (butlast stack)")
      case True
      then have "e \<in> set stack" by (rule in_set_butlastD)
      with anch have a: "anchored h secs e" by simp
      then show ?thesis using old len
        by (auto simp: anchored_def split: option.splits)
    next
      case False
      with e st1 obtain y where y: "y \<in> set ys" and ey: "e = (y, Some cur)" by auto
      from y ysub l bl have "y < length h" "n_parent (h ! y) = Some b"
        by (auto simp: linked_def)
      with ey cur new lastp nonempty len show ?thesis
        by (simp add: anchored_def)
    qed
  qed
  show ?thesis
    unfolding upd using cur c1 len cont' anch' by (simp add: buildInv_def)
qed

lemma popLoop_continuous:
  assumes "popLoop soma h st = Some y"
  shows "linked h \<longrightarrow> buildInv h st \<longrightarrow> (\<forall>secs. y = Inr secs \<longrightarrow> continuous secs)"
proof (rule popLoop.raw_induct
         [where P = "\<lambda>soma h st y. linked h \<longrightarrow> buildInv h st \<longrightarrow>
                       (\<forall>secs. y = Inr secs \<longrightarrow> continuous secs)", OF _ assms],
       goal_cases)
  case (1 loop soma h st y)
  note IH = 1(1) and body = 1(2)
  obtain secs stack cur where st: "st = (secs, stack, cur)" by (cases st)
  show ?case
  proof (intro impI allI)
    fix secs'
    assume l: "linked h" and inv: "buildInv h st" and y: "y = Inr secs'"
    show "continuous secs'"
    proof (cases "stack = []")
      case True
      with body st y have "secs' = secs" by simp
      with inv st show ?thesis by (simp add: buildInv_def)
    next
      case False
      with body st y obtain sec secs1 stack1 cur1 where
        b: "buildRawSection soma h (fst (last stack)) (snd (last stack))
              (secs, butlast stack, cur) = Some (Inr (sec, secs1, stack1, cur1))"
        and rec: "loop soma h ((secs1 @ [sec])[sec_id sec := sec], stack1, cur1) = Some y"
        by (auto split: option.splits sum.splits)
      from buildInv_step [OF inv [unfolded st] l False b]
      have "buildInv h ((secs1 @ [sec])[sec_id sec := sec], stack1, cur1)" .
      with IH [OF rec] l y show ?thesis by blast
    qed
  qed
qed

lemma rawSectionsOf_stages:
  assumes "rawSectionsOf (TreeNodeCollection soma points) = Some secs"
  shows "\<exists>nodes h rawSoma n cs.
           initCollection soma points = Inr (nodes, h, rawSoma)
           \<and> findFirstValid soma h nodes (Object_keys nodes) = Some (Inr (Some (n, cs)))
           \<and> popLoop soma h ([], map (\<lambda>c. (c, None)) cs, 0) = Some (Inr secs)"
proof -
  from assms obtain c raw where
    t: "TreeNodeCollection soma points = Some (Inr c)"
    and cr: "c_rawMorphology c = Some raw" and rs: "raw_sections raw = Some secs"
    by (auto simp: rawSectionsOf_def split: option.splits sum.splits)
  from t obtain nodes h rawSoma rawSections where
    i: "initCollection soma points = Inr (nodes, h, rawSoma)"
    and b: "buildSections soma h nodes = Some (Inr rawSections)"
    and m: "buildMorphologyObjects rawSoma rawSections = Inr c"
    by (auto simp: TreeNodeCollection_def split: sum.splits option.splits)
  from m cr rs have "rawSections = Some secs"
    by (auto simp: buildMorphologyObjects_def Let_def split: if_splits sum.splits)
  with b have "buildSections soma h nodes = Some (Inr (Some secs))" by simp
  then obtain n cs where
    "findFirstValid soma h nodes (Object_keys nodes) = Some (Inr (Some (n, cs)))"
    "popLoop soma h ([], map (\<lambda>c. (c, None)) cs, 0) = Some (Inr secs)"
    by (auto simp: buildSections_def split: option.splits sum.splits if_splits)
  with i show ?thesis by blast
qed

text \<open>
  Claim C6. Every reconstructed section that has a parent section starts with the last
  point of that parent, position and radius: the section is seeded with the parent of its
  starting node, which is the node the dive of the parent section ended on. The theorem
  holds for every value of \<open>SWC_TYPES.SOMA\<close>, that of the program included.
\<close>

theorem first_point_is_parents_last_point:
  assumes "rawSectionsOf (TreeNodeCollection soma points) = Some secs"
    and "k < length secs" and "sec_parent (secs ! k) = Some p"
  shows "p < length secs \<and> sec_points (secs ! k) \<noteq> [] \<and> sec_points (secs ! p) \<noteq> []
         \<and> hd (sec_points (secs ! k)) = last (sec_points (secs ! p))"
proof -
  from rawSectionsOf_stages [OF assms(1)] obtain nodes h rawSoma n cs where
    i: "initCollection soma points = Inr (nodes, h, rawSoma)"
    and f: "findFirstValid soma h nodes (Object_keys nodes) = Some (Inr (Some (n, cs)))"
    and lp: "popLoop soma h ([], map (\<lambda>c. (c, None)) cs, 0) = Some (Inr secs)"
    by blast
  from initCollection_linked [OF i] have l: "linked h" and r: "registered nodes h" by auto
  from findFirstValid_result [OF f r] have n: "n < length h"
    and g: "getNonSomaChildren soma h n = Some cs" by auto
  from getNonSomaChildren_subset [OF g] l n
  have "\<forall>c \<in> set cs. c < length h \<and> n_parent (h ! c) = Some n" by (auto simp: linked_def)
  then have "buildInv h ([], map (\<lambda>c. (c, None)) cs, 0)"
    by (auto simp: buildInv_def continuous_def anchored_def)
  with popLoop_continuous [OF lp] l have "continuous secs" by blast
  with assms(2,3) show ?thesis by (simp add: continuous_def)
qed

text \<open>
  On the fork the two child sections have the parent section 0, and each starts with
  the last point of section 0.
\<close>

theorem first_point_is_parents_last_point_witness:
  "rawSectionsOf (TreeNodeCollection SWC_TYPES_SOMA simpleFork) = Some simpleForkSections
   \<and> sec_parent (simpleForkSections ! 1) = Some 0
   \<and> sec_parent (simpleForkSections ! 2) = Some 0
   \<and> hd (sec_points (simpleForkSections ! 1)) = last (sec_points (simpleForkSections ! 0))
   \<and> hd (sec_points (simpleForkSections ! 2)) = last (sec_points (simpleForkSections ! 0))"
proof -
  have e: "rawSectionsOf (TreeNodeCollection SWC_TYPES_SOMA simpleFork)
             = Some simpleForkSections" by code_simp
  have k1: "(1::nat) < length simpleForkSections" and k2: "(2::nat) < length simpleForkSections"
    by (simp_all add: simpleForkSections_def)
  have p1: "sec_parent (simpleForkSections ! 1) = Some 0"
    and p2: "sec_parent (simpleForkSections ! 2) = Some 0"
    by (simp_all add: simpleForkSections_def)
  from first_point_is_parents_last_point [OF e k1 p1]
       first_point_is_parents_last_point [OF e k2 p2] e p1 p2
  show ?thesis by simp
qed

section \<open>A parent that is not registered\<close>

lemma registryPut_keys: "fst ` set (registryPut k a r) = insert k (fst ` set r)"
  by (induction k a r rule: registryPut.induct) force+

lemma initLoop_unregistered:
  assumes "i < length points" and "points ! i = Some p" and "p_parentId p \<noteq> - 1"
    and "p_parentId p \<notin> fst ` set nodes"
    and "\<forall>j \<le> i. \<forall>q. points ! j = Some q \<longrightarrow> p_id q \<noteq> p_parentId p"
  shows "initLoop soma points (nodes, h, somaNodes) = Inl TypeError"
  using assms
proof (induction points arbitrary: i nodes h somaNodes)
  case Nil
  then show ?case by simp
next
  case (Cons x points)
  show ?case
  proof (cases x)
    case None
    then show ?thesis by simp
  next
    case (Some q)
    show ?thesis
    proof (cases i)
      case 0
      with Cons.prems Some have qp: "q = p" by simp
      from Cons.prems 0 qp have "p_id p \<noteq> p_parentId p" by auto
      with Cons.prems
      have "map_of (registryPut (p_id p) (length h) nodes) (p_parentId p) = None"
        by (simp add: map_of_eq_None_iff registryPut_keys)
      with Some qp Cons.prems(3) show ?thesis by (simp add: Let_def)
    next
      case (Suc k)
      from Cons.prems Suc have k: "k < length points" "points ! k = Some p" by auto
      from Cons.prems Suc Some have "p_id q \<noteq> p_parentId p" by fastforce
      with Cons.prems
      have notin: "p_parentId p \<notin> fst ` set (registryPut (p_id q) (length h) nodes)"
        by (simp add: registryPut_keys)
      have later: "\<forall>j \<le> k. \<forall>q. points ! j = Some q \<longrightarrow> p_id q \<noteq> p_parentId p"
        using Cons.prems(5) Suc by (metis Suc_le_mono nth_Cons_Suc)
      note IH = Cons.IH [OF k Cons.prems(3) notin later]
      show ?thesis using Some IH
        by (auto simp: Let_def split: option.splits)
    qed
  qed
qed

text \<open>
  Claim C7 says that a point whose \<open>parentId\<close> is not \<open>-1\<close> and is not the id of an
  earlier node makes the parse fail, no morphology being produced. A point that names
  itself is not covered by the code: the node is stored in \<open>_nodes\<close> before its parent
  is looked up, so the lookup finds the node itself and nothing is thrown. On
  \<open>ownParent\<close> the third point has the parent id 5, which no earlier point has, and
  the parse returns a morphology (of the one section of the first two points).
\<close>

theorem own_parent_is_not_fatal:
  "parsePoints ownParent
   = Some (Inr
       \<lparr>c_rawMorphology = Some
          \<lparr>raw_soma = None,
           raw_sections = Some
             [\<lparr>sec_typevalue = 2, sec_typename = None,
               sec_points = [((0, 0, 0), 0), ((1, 0, 0), 1)],
               sec_id = 0, sec_children = [], sec_parent = None\<rparr>]\<rparr>,
        c_morphology = Some
          \<lparr>m_sections =
             [(0, \<lparr>s_id = 0, s_parent = None, s_children = [],
                   s_typename = Some ''axon'', s_typevalue = Some 2,
                   s_points = [(0, 0, 0), (1, 0, 0)], s_radiuses = [0, 1]\<rparr>)],
           m_soma = None\<rparr>\<rparr>)"
  by code_simp

text \<open>
  Claim C7, amended. A point whose \<open>parentId\<close> is not \<open>-1\<close> and is neither its own id
  nor the id of an earlier point makes the constructor of \<open>TreeNodeCollection\<close> throw,
  whatever stands before and after it: \<open>parse\<close> fails with that exception and no
  morphology is produced.
\<close>

theorem unregistered_parent_is_fatal:
  assumes "i < length points" and "points ! i = Some p" and "p_parentId p \<noteq> - 1"
    and "\<forall>j \<le> i. \<forall>q. points ! j = Some q \<longrightarrow> p_id q \<noteq> p_parentId p"
  shows "TreeNodeCollection soma points = Some (Inl TypeError)
         \<and> parsePoints points = Some (Inl TypeError)
         \<and> morphologyOf (parsePoints points) = None"
proof -
  have "\<And>soma. initLoop soma points ([], [], []) = Inl TypeError"
    by (rule initLoop_unregistered [OF assms(1-3) _ assms(4)]) simp
  then have "\<And>soma. TreeNodeCollection soma points = Some (Inl TypeError)"
    by (simp add: TreeNodeCollection_def initCollection_def)
  then show ?thesis by (simp add: parsePoints_def morphologyOf_def)
qed

theorem unregistered_parent_is_fatal_witness:
  "(2::nat) < length danglingParent
   \<and> danglingParent ! 2 = swcPoint 5 2 2 0 0 1 7
   \<and> parsePoints danglingParent = Some (Inl TypeError)
   \<and> morphologyOf (parsePoints danglingParent) = None"
proof -
  let ?p = "\<lparr>p_id = 5, p_type = 2, p_x = 2, p_y = 0, p_z = 0, p_radius = 1,
             p_parentId = 7\<rparr>"
  have a: "(2::nat) < length danglingParent" by (simp add: danglingParent_def)
  have b: "danglingParent ! 2 = Some ?p" by (simp add: danglingParent_def swcPoint_def)
  have c: "p_parentId ?p \<noteq> - 1" by simp
  have d: "\<forall>j \<le> 2. \<forall>q. danglingParent ! j = Some q \<longrightarrow> p_id q \<noteq> p_parentId ?p"
  proof (intro allI impI)
    fix j q assume "j \<le> (2::nat)" and q: "danglingParent ! j = Some q"
    then have "j = 0 \<or> j = 1 \<or> j = 2" by auto
    with q show "p_id q \<noteq> p_parentId ?p"
      by (auto simp: danglingParent_def swcPoint_def)
  qed
  from unregistered_parent_is_fatal [OF a b c d, of SWC_TYPES_SOMA] a b
  show ?thesis by (simp add: swcPoint_def morphologyOf_def)
qed

section \<open>An unbranched chain\<close>

lemma chain_init:
  assumes "isArrayIndex s" "isArrayIndex a1" "isArrayIndex a2" "isArrayIndex a3"
    and "distinct [s, a1, a2, a3, a4]"
  shows "initCollection SWC_TYPES_SOMA (chainTrace s a1 a2 a3 a4 q0 q1 q2 q3 q4)
         = Inr ([(s, 0), (a1, 1), (a2, 2), (a3, 3), (a4, 4)],
                chainHeap s a1 a2 a3 a4 q0 q1 q2 q3 q4, None)"
  using assms
  by (auto simp: initCollection_def chainTrace_def samplePoint_def swcPoint_def chainHeap_def
      chainNode_def Let_def setParent_def addChild_def doesAlreadyHaveChild_def
      newTreeNode_def isSoma_def SWC_TYPES_SOMA_def makeRawSoma_def isArrayIndex_def)

text \<open>The soma's key comes first in \<open>Object.keys\<close> when it is the smallest array index.\<close>

lemma chain_keys:
  assumes "isArrayIndex s" "isArrayIndex a1" "isArrayIndex a2" "isArrayIndex a3"
    "isArrayIndex a4" and "s < a1" "s < a2" "s < a3" "s < a4"
  shows "\<exists>rest. Object_keys [(s, 0), (a1, 1), (a2, 2), (a3, 3), (a4, 4)] = s # rest"
proof -
  have "sort (s # [a1, a2, a3, a4]) = s # sort [a1, a2, a3, a4]"
    unfolding sort_key_simps(2) [of "\<lambda>x. x" s]
    by (rule insort_is_Cons) (use assms in auto)
  with assms show ?thesis by (simp add: Object_keys_def)
qed

lemma chain_first:
  assumes "isArrayIndex s" "isArrayIndex a1" "isArrayIndex a2" "isArrayIndex a3"
    "isArrayIndex a4" and "s < a1" "s < a2" "s < a3" "s < a4"
  shows "findFirstValid soma (chainHeap s a1 a2 a3 a4 q0 q1 q2 q3 q4)
           [(s, 0), (a1, 1), (a2, 2), (a3, 3), (a4, 4)]
           (Object_keys [(s, 0), (a1, 1), (a2, 2), (a3, 3), (a4, 4)])
         = Some (Inr (Some (0, [1])))"
proof -
  from chain_keys [OF assms] obtain rest where
    k: "Object_keys [(s, 0), (a1, 1), (a2, 2), (a3, 3), (a4, 4)] = s # rest" ..
  show ?thesis unfolding k
    by (simp add: getNonSomaChildren_def chainHeap_def chainNode_def)
qed

lemma chain_dive:
  "dive soma (chainHeap s a1 a2 a3 a4 q0 q1 q2 q3 q4) (Suc 0) [0]
   = Some ([], [0, 1, 2, 3, 4])"
  apply (subst dive.simps, simp add: getNonSomaChildren_def chainHeap_def chainNode_def)
  apply (subst dive.simps, simp add: getNonSomaChildren_def chainHeap_def chainNode_def)
  apply (subst dive.simps, simp add: getNonSomaChildren_def chainHeap_def chainNode_def)
  apply (subst dive.simps, simp add: getNonSomaChildren_def chainHeap_def chainNode_def)
  done

lemma chain_build:
  "buildRawSection soma (chainHeap s a1 a2 a3 a4 q0 q1 q2 q3 q4) (Suc 0) None ([], [], 0)
   = Some (Inr (chainSection q0 q1 q2 q3 q4, [], [], Suc 0))"
proof -
  have p: "n_parent (chainHeap s a1 a2 a3 a4 q0 q1 q2 q3 q4 ! Suc 0) = Some 0"
    by (simp add: chainHeap_def chainNode_def)
  show ?thesis
    unfolding buildRawSection_def prod.case p option.case chain_dive
    by (simp add: Let_def truthy_def zeroFirstRadius_def chainSection_def chainHeap_def
        chainNode_def)
qed

lemma chain_loop:
  "popLoop soma (chainHeap s a1 a2 a3 a4 q0 q1 q2 q3 q4) ([], [(Suc 0, None)], 0)
   = Some (Inr [chainSection q0 q1 q2 q3 q4])"
  apply (subst popLoop.simps)
  apply (simp add: chain_build)
  apply (subst popLoop.simps)
  apply (simp add: chainSection_def)
  done

text \<open>
  Claim C8. A soma root followed by an unbranched chain of four axon points should give
  exactly one section: of axon type, with five points, the soma point first with radius
  0 and then the four axon points, without parent and without children.
  \<open>_buildSections\<close> looks for \<open>the first node that has non-soma children\<close> by walking
  \<open>Object.keys(this._nodes)\<close>, and \<open>Object.keys\<close> lists integer keys in ascending
  numeric order, not in the order in which the nodes were registered. When the soma
  point, first in the file, has the id 10 and the axon points the ids 1 to 4, the walk
  therefore starts from the first axon point instead of the soma point: the one section
  has four points, it begins with the first axon point, whose radius is overwritten with
  0, and the soma point is in no section; the morphology built from it has the same four
  points.
\<close>

theorem chain_with_larger_soma_id:
  "rawSectionsOf (parsePoints
     (chainTrace 10 1 2 3 4 ((0, 0, 0), 5) ((1, 0, 0), 1) ((2, 0, 0), 1) ((3, 0, 0), 1)
        ((4, 0, 0), 1)))
   = Some [\<lparr>sec_typevalue = 2, sec_typename = None,
            sec_points = [((1, 0, 0), 0), ((2, 0, 0), 1), ((3, 0, 0), 1), ((4, 0, 0), 1)],
            sec_id = 0, sec_children = [], sec_parent = None\<rparr>]
   \<and> map_option (map (\<lambda>(k, s). (k, s_points s, s_radiuses s)) \<circ> m_sections)
       (morphologyOf (parsePoints
          (chainTrace 10 1 2 3 4 ((0, 0, 0), 5) ((1, 0, 0), 1) ((2, 0, 0), 1) ((3, 0, 0), 1)
             ((4, 0, 0), 1))))
     = Some [(0, [(1, 0, 0), (2, 0, 0), (3, 0, 0), (4, 0, 0)], [0, 1, 1, 1])]"
  by code_simp

text \<open>
  On a tree with two branches the same order loses a whole branch. In \<open>twoBranches\<close>
  the soma point 10 has an axon branch (points 1 and 2) and a dendrite branch (points 3
  and 4). The walk starts from point 1, the first key with children: the only section
  made is the axon one, and neither the soma point nor the dendrite branch is in any
  section.
\<close>

lemma branch_lost_with_larger_soma_id:
  "map_option (map (\<lambda>s. (sec_id s, sec_typevalue s, sec_points s)))
     (rawSectionsOf (parsePoints twoBranches))
   = Some [(0, 2, [((1, 0, 0), 0), ((2, 0, 0), 1)])]"
  by code_simp

text \<open>
  When the ids are distinct array indices and the soma point has the smallest, as in
  the usual numbering 1, 2, 3, ..., the key of the soma point comes first and the chain
  gives the section that the claim describes, whatever the positions and radii; it is
  the one section of the morphology too.
\<close>

lemma chain_with_smallest_soma_id:
  assumes "isArrayIndex s" "isArrayIndex a1" "isArrayIndex a2" "isArrayIndex a3"
    "isArrayIndex a4" and "s < a1" "s < a2" "s < a3" "s < a4"
    and "distinct [a1, a2, a3, a4]"
  shows "rawSectionsOf (parsePoints (chainTrace s a1 a2 a3 a4 q0 q1 q2 q3 q4))
           = Some [chainSection q0 q1 q2 q3 q4]
         \<and> map_option m_sections
             (morphologyOf (parsePoints (chainTrace s a1 a2 a3 a4 q0 q1 q2 q3 q4)))
           = Some [(0, chainMorphologySection q0 q1 q2 q3 q4)]"
proof -
  from assms have d: "distinct [s, a1, a2, a3, a4]" by auto
  have b: "buildSections SWC_TYPES_SOMA (chainHeap s a1 a2 a3 a4 q0 q1 q2 q3 q4)
             [(s, 0), (a1, 1), (a2, 2), (a3, 3), (a4, 4)]
           = Some (Inr (Some [chainSection q0 q1 q2 q3 q4]))"
    unfolding buildSections_def chain_first [OF assms(1-9)]
    by (simp add: chain_loop)
  show ?thesis
    unfolding parsePoints_def TreeNodeCollection_def chain_init [OF assms(1-4) d]
    apply (simp only: sum.case prod.case b option.case)
    apply (simp add: rawSectionsOf_def morphologyOf_def buildMorphologyObjects_def
        buildFromRawMorphology_def Let_def newMorphology_def chainSection_def
        chainMorphologySection_def Section_initWithRawSection_def TYPEVALUE_2_TYPENAME_def)
    done
qed

lemma chain_numbered_from_one:
  "rawSectionsOf (parsePoints
        (chainTrace 1 2 3 4 5 ((0, 0, 0), 5) ((1, 0, 0), 1) ((2, 0, 0), 1) ((3, 0, 0), 1)
           ((4, 0, 0), 1)))
      = Some [\<lparr>sec_typevalue = 2, sec_typename = None,
               sec_points = [((0, 0, 0), 0), ((1, 0, 0), 1), ((2, 0, 0), 1), ((3, 0, 0), 1),
                             ((4, 0, 0), 1)],
               sec_id = 0, sec_children = [], sec_parent = None\<rparr>]"
proof -
  have i: "isArrayIndex 1" "isArrayIndex 2" "isArrayIndex 3" "isArrayIndex 4"
    "isArrayIndex 5" by (simp_all add: isArrayIndex_def)
  have o: "(1::int) < 2" "(1::int) < 3" "(1::int) < 4" "(1::int) < 5" by simp_all
  have d: "distinct [2, 3, 4, 5 :: int]" by simp
  from chain_with_smallest_soma_id [OF i o d] show ?thesis
    by (simp add: chainSection_def)
qed

section \<open>The order of the section ids\<close>

inductive_cases visitAll_NilE: "visitAll soma h [] secs secs'"
inductive_cases visitAll_ConsE: "visitAll soma h (e # es) secs secs'"

lemma visitAll_append_split:
  "visitAll soma h (xs @ ys) s s'' \<Longrightarrow> \<exists>s'. visitAll soma h xs s s' \<and> visitAll soma h ys s' s''"
proof (induction xs arbitrary: s)
  case Nil
  then show ?case by (auto intro: visit_none)
next
  case (Cons x xs)
  from Cons.prems obtain s1 where v: "visit soma h x s s1"
    and r: "visitAll soma h (xs @ ys) s1 s''"
    by (auto elim: visitAll_ConsE)
  from Cons.IH [OF r] obtain s' where "visitAll soma h xs s1 s'" "visitAll soma h ys s' s''"
    by blast
  with v show ?case by (auto intro: visit_next)
qed

lemma buildRawSection_stack:
  assumes "buildRawSection soma h n po (secs, stack, cur) = Some (Inr (sec, secs1, stack1, c1))"
  shows "\<exists>ys. stack1 = stack @ ys
              \<and> buildRawSection soma h n po (secs, [], cur) = Some (Inr (sec, secs1, ys, c1))"
  using assms
  by (auto simp: buildRawSection_def Let_def split: option.splits sum.splits if_splits)

lemma popLoop_visitAll:
  assumes "popLoop soma h st = Some y"
  shows "\<forall>secs stack secs'. st = (secs, stack, length secs) \<longrightarrow> y = Inr secs' \<longrightarrow>
           visitAll soma h (rev stack) secs secs'"
proof (rule popLoop.raw_induct
         [where P = "\<lambda>soma h st y. \<forall>secs stack secs'. st = (secs, stack, length secs) \<longrightarrow>
                       y = Inr secs' \<longrightarrow> visitAll soma h (rev stack) secs secs'", OF _ assms],
       goal_cases)
  case (1 loop soma h st y)
  note IH = 1(1) and body = 1(2)
  show ?case
  proof (intro allI impI)
    fix secs stack secs'
    assume st: "st = (secs, stack, length secs)" and y: "y = Inr secs'"
    show "visitAll soma h (rev stack) secs secs'"
    proof (cases "stack = []")
      case True
      with body st y have "secs' = secs" by simp
      with True show ?thesis by (simp add: visit_none)
    next
      case False
      with body st y obtain sec secs1 stack1 cur1 where
        b: "buildRawSection soma h (fst (last stack)) (snd (last stack))
              (secs, butlast stack, length secs) = Some (Inr (sec, secs1, stack1, cur1))"
        and rec: "loop soma h ((secs1 @ [sec])[sec_id sec := sec], stack1, cur1) = Some y"
        by (auto split: option.splits sum.splits)
      from buildRawSection_result [OF b] have sid: "sec_id sec = length secs"
        and c1: "cur1 = length secs + 1" and len: "length secs1 = length secs" by auto
      from buildRawSection_stack [OF b] obtain ys where
        st1: "stack1 = butlast stack @ ys"
        and b0: "buildRawSection soma h (fst (last stack)) (snd (last stack))
              (secs, [], length secs) = Some (Inr (sec, secs1, ys, cur1))" by blast
      have upd: "(secs1 @ [sec])[sec_id sec := sec] = secs1 @ [sec]"
        using sid len by (simp add: list_update_append)
      have "cur1 = length (secs1 @ [sec])" using c1 len by simp
      with IH [OF rec] upd y st1
      have "visitAll soma h (rev (butlast stack @ ys)) (secs1 @ [sec]) secs'" by simp
      then have "visitAll soma h (rev ys @ rev (butlast stack)) (secs1 @ [sec]) secs'" by simp
      from visitAll_append_split [OF this] obtain mid where
        m1: "visitAll soma h (rev ys) (secs1 @ [sec]) mid"
        and m2: "visitAll soma h (rev (butlast stack)) mid secs'" by blast
      from b0 m1 have v: "visit soma h (last stack) secs mid" by (rule visit_entry)
      from v m2 have "visitAll soma h (last stack # rev (butlast stack)) secs secs'"
        by (rule visit_next)
      moreover have "rev stack = last stack # rev (butlast stack)"
      proof -
        from False have "rev stack = rev (butlast stack @ [last stack])" by simp
        then show ?thesis by (simp only: rev_append rev.simps append.simps)
      qed
      ultimately show ?thesis by (simp only:)
    qed
  qed
qed

lemma popLoop_numbered:
  assumes "popLoop soma h st = Some y"
  shows "\<forall>secs stack secs'. st = (secs, stack, length secs) \<longrightarrow> numbered secs \<longrightarrow>
           y = Inr secs' \<longrightarrow> numbered secs'"
proof (rule popLoop.raw_induct
         [where P = "\<lambda>soma h st y. \<forall>secs stack secs'. st = (secs, stack, length secs) \<longrightarrow>
                       numbered secs \<longrightarrow> y = Inr secs' \<longrightarrow> numbered secs'", OF _ assms],
       goal_cases)
  case (1 loop soma h st y)
  note IH = 1(1) and body = 1(2)
  show ?case
  proof (intro allI impI)
    fix secs stack secs'
    assume st: "st = (secs, stack, length secs)" and nb: "numbered secs" and y: "y = Inr secs'"
    show "numbered secs'"
    proof (cases "stack = []")
      case True
      with body st y nb show ?thesis by simp
    next
      case False
      with body st y obtain sec secs1 stack1 cur1 where
        b: "buildRawSection soma h (fst (last stack)) (snd (last stack))
              (secs, butlast stack, length secs) = Some (Inr (sec, secs1, stack1, cur1))"
        and rec: "loop soma h ((secs1 @ [sec])[sec_id sec := sec], stack1, cur1) = Some y"
        by (auto split: option.splits sum.splits)
      from buildRawSection_result [OF b] have sid: "sec_id sec = length secs"
        and c1: "cur1 = length secs + 1" and len: "length secs1 = length secs"
        and keep: "\<forall>k < length secs. sec_id (secs1 ! k) = sec_id (secs ! k)" by auto
      have upd: "(secs1 @ [sec])[sec_id sec := sec] = secs1 @ [sec]"
        using sid len by (simp add: list_update_append)
      have nb': "numbered (secs1 @ [sec])"
        using nb keep sid len by (auto simp: numbered_def nth_append less_Suc_eq)
      have "cur1 = length (secs1 @ [sec])" using c1 len by simp
      with IH [OF rec] upd y nb' show ?thesis by simp
    qed
  qed
qed

inductive_cases depthFirstAll_ConsE: "depthFirstAll soma h (e # es) k order"
inductive_cases depthFirstAll_NilE: "depthFirstAll soma h [] k order"

lemma depthFirst_head: "depthFirst soma h e k order \<Longrightarrow> \<exists>below. order = e # below"
  by (erule depthFirst.cases) auto

text \<open>The depth-first numbering of a list of entries is unique.\<close>

lemma depthFirst_deterministic:
  shows "depthFirst soma h e k order \<Longrightarrow> depthFirst soma h e k order' \<Longrightarrow> order' = order"
    and "depthFirstAll soma h es k order \<Longrightarrow> depthFirstAll soma h es k order' \<Longrightarrow> order' = order"
proof (induction arbitrary: order' and order' rule: depthFirst_depthFirstAll.inducts)
  case (df_section soma h e path forks k below)
  from df_section.prems obtain path' forks' below' where o: "order' = e # below'"
    and w: "walk soma h (fst e) path' forks'"
    and d: "depthFirstAll soma h (rev (map (\<lambda>c. (c, Some k)) forks')) (Suc k) below'"
    by (auto elim: depthFirst.cases)
  from walk_deterministic [OF df_section.hyps(1) w] have "forks' = forks" by simp
  with d df_section.IH have "below' = below" by simp
  with o show ?case by simp
next
  case (df_none soma h k)
  then show ?case by (auto elim: depthFirstAll_NilE)
next
  case (df_next soma h e k xs es ys)
  from df_next.prems obtain xs' ys' where o: "order' = xs' @ ys'"
    and d1: "depthFirst soma h e k xs'"
    and d2: "depthFirstAll soma h es (k + length xs') ys'"
    by (auto elim: depthFirstAll_ConsE)
  from df_next.IH(1) [OF d1] have x: "xs' = xs" .
  with d2 df_next.IH(2) have "ys' = ys" by simp
  with o x show ?case by simp
qed

text \<open>
  What the pop loop visits is numbered depth first: a visit appends the sections of the
  entry and of everything below it in the order of \<open>depthFirst\<close>, and leaves the ids,
  parents and points of the earlier sections alone.
\<close>

lemma kept_refl: "kept secs secs"
  by (simp add: kept_def)

lemma kept_trans: "kept a b \<Longrightarrow> kept b c \<Longrightarrow> kept a c"
  by (auto simp: kept_def)

lemma sectionAt_kept:
  "sectionAt soma h e k secs \<Longrightarrow> kept secs secs' \<Longrightarrow> sectionAt soma h e k secs'"
  by (auto simp: sectionAt_def kept_def)

lemma visit_depthFirst:
  shows "visit soma h e secs secs' \<Longrightarrow> linked h \<Longrightarrow> flagged soma h \<Longrightarrow> fst e < length h \<Longrightarrow>
           \<exists>order. depthFirst soma h e (length secs) order
                   \<and> length secs' = length secs + length order \<and> kept secs secs'
                   \<and> (\<forall>j < length order. sectionAt soma h (order ! j) (length secs + j) secs')"
    and "visitAll soma h es secs secs' \<Longrightarrow> linked h \<Longrightarrow> flagged soma h \<Longrightarrow>
           \<forall>e \<in> set es. fst e < length h \<Longrightarrow>
           \<exists>order. depthFirstAll soma h es (length secs) order
                   \<and> length secs' = length secs + length order \<and> kept secs secs'
                   \<and> (\<forall>j < length order. sectionAt soma h (order ! j) (length secs + j) secs')"
proof (induction rule: visit_visitAll.inducts)
  case (visit_entry soma h e secs sec secs1 yields c secs')
  note l = visit_entry.prems(1) and f = visit_entry.prems(2) and t = visit_entry.prems(3)
  from buildRawSection_result [OF visit_entry.hyps(1)] obtain ys nl where
    d: "dive soma h (fst e) (case n_parent (h ! fst e) of Some p \<Rightarrow> [p] | None \<Rightarrow> [])
          = Some (ys, nl)"
    and pts: "sec_points sec = (if snd e = None \<and> nl \<noteq> [] then zeroFirstRadius (map (ptOf h) nl)
                               else map (ptOf h) nl)"
    and sid: "sec_id sec = length secs" and spar: "sec_parent sec = snd e"
    and yl: "yields = [] @ map (\<lambda>y. (y, Some (length secs))) ys"
    and len: "length secs1 = length secs"
    and keep: "\<forall>k < length secs. sec_points (secs1 ! k) = sec_points (secs ! k)
                 \<and> sec_parent (secs1 ! k) = sec_parent (secs ! k)
                 \<and> sec_id (secs1 ! k) = sec_id (secs ! k)"
    by auto
  from dive_walk [OF d] l f t obtain path where
    nl: "nl = seedOf h (fst e) @ path" and w: "walk soma h (fst e) path ys"
    and rng: "\<forall>c \<in> set ys. c < length h"
    by (auto simp: seedOf_def)
  from rng yl have "\<forall>e \<in> set (rev yields). fst e < length h" by auto
  from visit_entry.IH [OF l f this] len obtain below where
    df: "depthFirstAll soma h (rev yields) (Suc (length secs)) below"
    and ln: "length secs' = Suc (length secs) + length below"
    and k2: "kept (secs1 @ [sec]) secs'"
    and each: "\<forall>j < length below. sectionAt soma h (below ! j) (Suc (length secs) + j) secs'"
    by auto
  from yl have "rev yields = rev (map (\<lambda>c. (c, Some (length secs))) ys)" by simp
  with df have "depthFirstAll soma h (rev (map (\<lambda>c. (c, Some (length secs))) ys))
                  (Suc (length secs)) below" by simp
  with w have D: "depthFirst soma h e (length secs) (e # below)" by (rule df_section)
  have k1: "kept secs (secs1 @ [sec])"
    using len keep by (auto simp: kept_def nth_append)
  from k1 k2 have K: "kept secs secs'" by (rule kept_trans)
  from walk_nonempty [OF w] nl have ne: "nl \<noteq> []" by simp
  have "sectionAt soma h e (length secs) (secs1 @ [sec])"
    unfolding sectionAt_def using w pts sid spar len nl ne
    by (auto simp: nth_append)
  from this k2 have s0: "sectionAt soma h e (length secs) secs'" by (rule sectionAt_kept)
  have E: "\<forall>j < length (e # below). sectionAt soma h ((e # below) ! j) (length secs + j) secs'"
  proof (intro allI impI)
    fix j assume j: "j < length (e # below)"
    show "sectionAt soma h ((e # below) ! j) (length secs + j) secs'"
    proof (cases j)
      case 0
      with s0 show ?thesis by simp
    next
      case (Suc i)
      with j each show ?thesis by simp
    qed
  qed
  from ln have "length secs' = length secs + length (e # below)" by simp
  with D K E show ?case by blast
next
  case (visit_none soma h secs)
  have "depthFirstAll soma h [] (length secs) []" by (rule df_none)
  then show ?case by (intro exI [of _ "[]"]) (simp add: kept_refl)
next
  case (visit_next soma h e secs secs1 es secs')
  note l = visit_next.prems(1) and f = visit_next.prems(2)
  from visit_next.prems(3) have t: "fst e < length h" and ts: "\<forall>e \<in> set es. fst e < length h"
    by auto
  from visit_next.IH(1) [OF l f t] obtain xs where
    d1: "depthFirst soma h e (length secs) xs"
    and l1: "length secs1 = length secs + length xs" and k1: "kept secs secs1"
    and e1: "\<forall>j < length xs. sectionAt soma h (xs ! j) (length secs + j) secs1" by blast
  from visit_next.IH(2) [OF l f ts] obtain ys where
    d2: "depthFirstAll soma h es (length secs1) ys"
    and l2: "length secs' = length secs1 + length ys" and k2: "kept secs1 secs'"
    and e2: "\<forall>j < length ys. sectionAt soma h (ys ! j) (length secs1 + j) secs'" by blast
  from d2 l1 have "depthFirstAll soma h es (length secs + length xs) ys" by simp
  with d1 have D: "depthFirstAll soma h (e # es) (length secs) (xs @ ys)" by (rule df_next)
  from k1 k2 have K: "kept secs secs'" by (rule kept_trans)
  have E: "\<forall>j < length (xs @ ys). sectionAt soma h ((xs @ ys) ! j) (length secs + j) secs'"
  proof (intro allI impI)
    fix j assume j: "j < length (xs @ ys)"
    show "sectionAt soma h ((xs @ ys) ! j) (length secs + j) secs'"
    proof (cases "j < length xs")
      case True
      with e1 have "sectionAt soma h (xs ! j) (length secs + j) secs1" by simp
      from this k2 have "sectionAt soma h (xs ! j) (length secs + j) secs'"
        by (rule sectionAt_kept)
      with True show ?thesis by (simp add: nth_append)
    next
      case False
      with j have "j - length xs < length ys" by simp
      with e2 have "sectionAt soma h (ys ! (j - length xs)) (length secs1 + (j - length xs)) secs'"
        by simp
      with False l1 show ?thesis by (simp add: nth_append)
    qed
  qed
  from l1 l2 have "length secs' = length secs + length (xs @ ys)" by simp
  with D K E show ?case by blast
qed

text \<open>
  In a depth-first numbering the entries of a list keep their order, so the forks of a
  run, taken in reverse, get decreasing places along their structural order; this holds
  at every entry.
\<close>

lemma reversedSiblings_extend:
  "reversedSiblings xs forks p idx \<Longrightarrow> reversedSiblings (xs @ ys) forks p idx"
  by (auto simp: reversedSiblings_def nth_append)

lemma reversedSiblings_shift:
  assumes "reversedSiblings ys forks p idx"
  shows "reversedSiblings (xs @ ys) forks p (map (\<lambda>i. length xs + i) idx)"
proof -
  from assms have "sorted_wrt (>) idx" by (simp add: reversedSiblings_def)
  then have "sorted_wrt (>) (map (\<lambda>i. length xs + i) idx)"
    by (simp add: sorted_wrt_map)
  with assms show ?thesis by (auto simp: reversedSiblings_def nth_append)
qed

lemma depthFirstAll_positions:
  "depthFirstAll soma h es k order \<Longrightarrow>
   \<exists>idx. length idx = length es \<and> sorted_wrt (<) idx
         \<and> (\<forall>i < length es. idx ! i < length order \<and> order ! (idx ! i) = es ! i)"
proof (induction es arbitrary: k order)
  case Nil
  then show ?case by simp
next
  case (Cons e es)
  from Cons.prems obtain xs ys where o: "order = xs @ ys"
    and d1: "depthFirst soma h e k xs"
    and d2: "depthFirstAll soma h es (k + length xs) ys"
    by (auto elim: depthFirstAll_ConsE)
  from depthFirst_head [OF d1] obtain below where xs: "xs = e # below" ..
  from Cons.IH [OF d2] obtain idx where len: "length idx = length es"
    and srt: "sorted_wrt (<) idx"
    and each: "\<forall>i < length es. idx ! i < length ys \<and> ys ! (idx ! i) = es ! i" by blast
  let ?idx = "0 # map (\<lambda>i. length xs + i) idx"
  have "length ?idx = length (e # es)" using len by simp
  moreover have "sorted_wrt (<) ?idx" using srt xs by (simp add: sorted_wrt_map)
  moreover have "\<forall>i < length (e # es). ?idx ! i < length order \<and> order ! (?idx ! i) = (e # es) ! i"
  proof (intro allI impI)
    fix i assume i: "i < length (e # es)"
    show "?idx ! i < length order \<and> order ! (?idx ! i) = (e # es) ! i"
    proof (cases i)
      case 0
      with o xs show ?thesis by simp
    next
      case (Suc j)
      with i each len o show ?thesis by (simp add: nth_append)
    qed
  qed
  ultimately show ?case by blast
qed

lemma depthFirstAll_reversed:
  assumes "depthFirstAll soma h (rev (map (\<lambda>c. (c, p)) forks)) k order"
  shows "\<exists>idx. reversedSiblings order forks p idx"
proof -
  let ?es = "map (\<lambda>c. (c, p)) forks"
  from depthFirstAll_positions [OF assms] obtain idx where len: "length idx = length forks"
    and srt: "sorted_wrt (<) idx"
    and each: "\<forall>i < length forks. idx ! i < length order \<and> order ! (idx ! i) = rev ?es ! i"
    by auto
  have "sorted_wrt (>) (rev idx)" using srt by (simp add: sorted_wrt_rev)
  moreover have "\<forall>i < length forks. rev idx ! i < length order
                   \<and> order ! (rev idx ! i) = (forks ! i, p)"
  proof (intro allI impI)
    fix i assume i: "i < length forks"
    then have j: "length forks - Suc i < length forks" by simp
    from i len have a: "rev idx ! i = idx ! (length forks - Suc i)" by (simp add: rev_nth)
    from i have "rev ?es ! (length forks - Suc i) = ?es ! i" by (simp add: rev_nth)
    with i have b: "rev ?es ! (length forks - Suc i) = (forks ! i, p)" by simp
    from each j a b show "rev idx ! i < length order \<and> order ! (rev idx ! i) = (forks ! i, p)"
      by simp
  qed
  ultimately have "reversedSiblings order forks p (rev idx)"
    using len by (simp add: reversedSiblings_def)
  then show ?thesis ..
qed

lemma forkOrder_append:
  assumes a: "forkOrder soma h k xs" and b: "forkOrder soma h (k + length xs) ys"
  shows "forkOrder soma h k (xs @ ys)"
  unfolding forkOrder_def
proof (intro allI impI)
  fix j assume j: "j < length (xs @ ys)"
  show "\<exists>path forks idx. walk soma h (fst ((xs @ ys) ! j)) path forks
          \<and> reversedSiblings (xs @ ys) forks (Some (k + j)) idx \<and> (\<forall>i \<in> set idx. j < i)"
  proof (cases "j < length xs")
    case True
    with a obtain path forks idx where w: "walk soma h (fst (xs ! j)) path forks"
      and r: "reversedSiblings xs forks (Some (k + j)) idx" and g: "\<forall>i \<in> set idx. j < i"
      unfolding forkOrder_def by blast
    from r have "reversedSiblings (xs @ ys) forks (Some (k + j)) idx"
      by (rule reversedSiblings_extend)
    with w g True show ?thesis by (auto simp: nth_append)
  next
    case False
    with j have j': "j - length xs < length ys" by simp
    with b obtain path forks idx where w: "walk soma h (fst (ys ! (j - length xs))) path forks"
      and r: "reversedSiblings ys forks (Some (k + length xs + (j - length xs))) idx"
      and g: "\<forall>i \<in> set idx. j - length xs < i"
      unfolding forkOrder_def by blast
    from False have eq: "k + length xs + (j - length xs) = k + j" by simp
    let ?idx = "map (\<lambda>i. length xs + i) idx"
    from r have r2: "reversedSiblings (xs @ ys) forks (Some (k + j)) ?idx"
      unfolding eq by (rule reversedSiblings_shift)
    from g False have g2: "\<forall>i \<in> set ?idx. j < i" by auto
    from False have "(xs @ ys) ! j = ys ! (j - length xs)" by (simp add: nth_append)
    with w have "walk soma h (fst ((xs @ ys) ! j)) path forks" by simp
    with r2 g2 show ?thesis by blast
  qed
qed

lemma depthFirst_forkOrder:
  shows "depthFirst soma h e k order \<Longrightarrow> forkOrder soma h k order"
    and "depthFirstAll soma h es k order \<Longrightarrow> forkOrder soma h k order"
proof (induction rule: depthFirst_depthFirstAll.inducts)
  case (df_section soma h e path forks k below)
  from depthFirstAll_reversed [OF df_section.hyps(2)] obtain idx where
    r: "reversedSiblings below forks (Some k) idx" ..
  show ?case
    unfolding forkOrder_def
  proof (intro allI impI)
    fix j assume j: "j < length (e # below)"
    show "\<exists>path forks idx. walk soma h (fst ((e # below) ! j)) path forks
            \<and> reversedSiblings (e # below) forks (Some (k + j)) idx \<and> (\<forall>i \<in> set idx. j < i)"
    proof (cases j)
      case 0
      let ?idx = "map (\<lambda>i. length [e] + i) idx"
      from r have "reversedSiblings ([e] @ below) forks (Some k) ?idx"
        by (rule reversedSiblings_shift)
      then have "reversedSiblings (e # below) forks (Some (k + j)) ?idx" using 0 by simp
      moreover have "\<forall>i \<in> set ?idx. j < i" using 0 by simp
      moreover from df_section.hyps(1) 0 have "walk soma h (fst ((e # below) ! j)) path forks"
        by simp
      ultimately show ?thesis by blast
    next
      case (Suc j')
      with j have "j' < length below" by simp
      with df_section.IH obtain path' forks' idx' where
        w: "walk soma h (fst (below ! j')) path' forks'"
        and r': "reversedSiblings below forks' (Some (Suc k + j')) idx'"
        and g: "\<forall>i \<in> set idx'. j' < i"
        unfolding forkOrder_def by blast
      let ?idx = "map (\<lambda>i. length [e] + i) idx'"
      from r' have "reversedSiblings ([e] @ below) forks' (Some (Suc k + j')) ?idx"
        by (rule reversedSiblings_shift)
      then have "reversedSiblings (e # below) forks' (Some (k + j)) ?idx" using Suc by simp
      moreover from g Suc have "\<forall>i \<in> set ?idx. j < i" by auto
      moreover from w Suc have "walk soma h (fst ((e # below) ! j)) path' forks'" by simp
      ultimately show ?thesis by blast
    qed
  qed
next
  case (df_none soma h k)
  show ?case by (simp add: forkOrder_def)
next
  case (df_next soma h e k xs es ys)
  from df_next.IH show ?case by (rule forkOrder_append)
qed

text \<open>
  Claim C10. The sections are numbered with consecutive integers from 0 (\<open>numbered\<close>),
  in a depth-first order over the tree in which the sections spawned at a fork take
  their ids in the reverse of the structural order of the fork's children. For every
  parse that produces sections there is the list \<open>order\<close> of their entries, the entry
  of section \<open>k\<close> at place \<open>k\<close> (\<open>sectionAt\<close>), and it is the depth-first numbering
  from 0 of the structural children of the first valid node, the last child first.
  The last two conjuncts spell the sibling order out: along the structural children of
  the first valid node, and along the forks of the run of every section \<open>k\<close>, the
  sections of the siblings have decreasing ids, all larger than \<open>k\<close>. The theorem holds
  for every value of \<open>SWC_TYPES.SOMA\<close>.
\<close>

theorem section_ids_depth_first_reversed:
  assumes "rawSectionsOf (TreeNodeCollection soma points) = Some secs"
  shows "numbered secs
         \<and> (\<exists>nodes h rawSoma n order.
               initCollection soma points = Inr (nodes, h, rawSoma)
               \<and> findFirstValid soma h nodes (Object_keys nodes)
                   = Some (Inr (Some (n, nonSomaChildren soma h n)))
               \<and> depthFirstAll soma h (rev (map (\<lambda>c. (c, None)) (nonSomaChildren soma h n)))
                   0 order
               \<and> length order = length secs
               \<and> (\<forall>k < length secs. sectionAt soma h (order ! k) k secs)
               \<and> (\<exists>idx. reversedSiblings order (nonSomaChildren soma h n) None idx)
               \<and> (\<forall>k < length secs. \<exists>path forks idx.
                     walk soma h (fst (order ! k)) path forks
                     \<and> reversedSiblings order forks (Some k) idx \<and> (\<forall>i \<in> set idx. k < i)))"
proof -
  from rawSectionsOf_stages [OF assms] obtain nodes h rawSoma n cs where
    i: "initCollection soma points = Inr (nodes, h, rawSoma)"
    and f: "findFirstValid soma h nodes (Object_keys nodes) = Some (Inr (Some (n, cs)))"
    and lp: "popLoop soma h ([], map (\<lambda>c. (c, None)) cs, 0) = Some (Inr secs)"
    by blast
  from initCollection_linked [OF i] have l: "linked h" and rg: "registered nodes h" by auto
  from initCollection_flagged [OF i] have fl: "flagged soma h" .
  from findFirstValid_result [OF f rg] have n: "n < length h"
    and g: "getNonSomaChildren soma h n = Some cs" by auto
  from getNonSomaChildren_structural [OF g fl n] have cs: "cs = nonSomaChildren soma h n" .
  from getNonSomaChildren_subset [OF g] l n have rng: "\<forall>c \<in> set cs. c < length h"
    by (auto simp: linked_def)
  from popLoop_numbered [OF lp] have nb: "numbered secs" by (simp add: numbered_def)
  from popLoop_visitAll [OF lp]
  have v: "visitAll soma h (rev (map (\<lambda>c. (c, None)) cs)) [] secs" by simp
  from rng have "\<forall>e \<in> set (rev (map (\<lambda>c. (c, None)) cs)). fst e < length h" by auto
  from visit_depthFirst(2) [OF v l fl this] obtain order where
    d: "depthFirstAll soma h (rev (map (\<lambda>c. (c, None)) cs)) 0 order"
    and len: "length order = length secs"
    and each: "\<forall>k < length secs. sectionAt soma h (order ! k) k secs"
    by auto
  from depthFirstAll_reversed [OF d] have root: "\<exists>idx. reversedSiblings order cs None idx" .
  from depthFirst_forkOrder(2) [OF d] len
  have forks: "\<forall>k < length secs. \<exists>path forks idx.
                 walk soma h (fst (order ! k)) path forks
                 \<and> reversedSiblings order forks (Some k) idx \<and> (\<forall>i \<in> set idx. k < i)"
    by (simp add: forkOrder_def)
  from i f d len each root forks show ?thesis unfolding cs using nb by blast
qed

text \<open>
  On \<open>forkTrace\<close> (the fork at point 2 with the children 3 and 4, the fork at point 4
  with the children 5 and 6; the node of point \<open>i\<close> is the object \<open>i - 1\<close> of the
  heap) the order is: the section of point 2, then of point 4, of point 6, of point 5,
  and of point 3.
\<close>

lemma forkHeap_order:
  "nonSomaChildren SWC_TYPES_SOMA forkHeap 0 = [1]
   \<and> depthFirstAll SWC_TYPES_SOMA forkHeap [(1, None)] 0
       [(1, None), (3, Some 0), (5, Some 1), (4, Some 1), (2, Some 0)]"
proof -
  let ?S = SWC_TYPES_SOMA and ?H = forkHeap
  have w1: "walk ?S ?H 1 [1] [2, 3]" by code_simp
  have w3: "walk ?S ?H 3 [3] [4, 5]" by code_simp
  have w5: "walk ?S ?H 5 [5] []" by code_simp
  have w4: "walk ?S ?H 4 [4] []" by code_simp
  have w2: "walk ?S ?H 2 [2] []" by code_simp
  have n0: "\<And>k. depthFirstAll ?S ?H [] k []" by (rule df_none)
  have d5: "depthFirst ?S ?H (5, Some 1) 2 [(5, Some 1)]"
    using df_section [of ?S ?H "(5, Some 1)" "[5]" "[]" 2 "[]"] w5 n0 by (simp add: eval_nat_numeral)
  have d4: "depthFirst ?S ?H (4, Some 1) 3 [(4, Some 1)]"
    using df_section [of ?S ?H "(4, Some 1)" "[4]" "[]" 3 "[]"] w4 n0 by (simp add: eval_nat_numeral)
  have d2: "depthFirst ?S ?H (2, Some 0) 4 [(2, Some 0)]"
    using df_section [of ?S ?H "(2, Some 0)" "[2]" "[]" 4 "[]"] w2 n0 by (simp add: eval_nat_numeral)
  have a4: "depthFirstAll ?S ?H [(4, Some 1)] 3 [(4, Some 1)]"
    using df_next [OF d4, of "[]" "[]"] n0 by (simp add: eval_nat_numeral)
  have a54: "depthFirstAll ?S ?H [(5, Some 1), (4, Some 1)] 2 [(5, Some 1), (4, Some 1)]"
    using df_next [OF d5, of "[(4, Some 1)]" "[(4, Some 1)]"] a4 by (simp add: eval_nat_numeral)
  have d3: "depthFirst ?S ?H (3, Some 0) 1 [(3, Some 0), (5, Some 1), (4, Some 1)]"
    using df_section [of ?S ?H "(3, Some 0)" "[3]" "[4, 5]" 1 "[(5, Some 1), (4, Some 1)]"]
      w3 a54 by (simp add: eval_nat_numeral)
  have a2: "depthFirstAll ?S ?H [(2, Some 0)] 4 [(2, Some 0)]"
    using df_next [OF d2, of "[]" "[]"] n0 by (simp add: eval_nat_numeral)
  have a32: "depthFirstAll ?S ?H [(3, Some 0), (2, Some 0)] 1
               [(3, Some 0), (5, Some 1), (4, Some 1), (2, Some 0)]"
    using df_next [OF d3, of "[(2, Some 0)]" "[(2, Some 0)]"] a2 by (simp add: eval_nat_numeral)
  have d1: "depthFirst ?S ?H (1, None) 0
              [(1, None), (3, Some 0), (5, Some 1), (4, Some 1), (2, Some 0)]"
    using df_section [of ?S ?H "(1, None)" "[1]" "[2, 3]" 0
        "[(3, Some 0), (5, Some 1), (4, Some 1), (2, Some 0)]"] w1 a32 by (simp add: eval_nat_numeral)
  have "depthFirstAll ?S ?H [(1, None)] 0
          [(1, None), (3, Some 0), (5, Some 1), (4, Some 1), (2, Some 0)]"
    using df_next [OF d1, of "[]" "[]"] n0 by (simp add: eval_nat_numeral)
  moreover have "nonSomaChildren ?S ?H 0 = [1]" by code_simp
  ultimately show ?thesis by simp
qed

text \<open>
  On \<open>threeFork\<close> the child list of point 2 is 3, 4, 5, and the sections started
  from these points get the ids 3, 2, 1: each entry is the id of a section, its parent
  and the position of its second point, the point the section was started from.
\<close>

lemma three_fork_numbering:
  "map_option (map (\<lambda>(n, c). (n_id n, map (\<lambda>k. n_id (c ! k)) (n_children n))))
     (case initCollection SWC_TYPES_SOMA threeFork of
        Inr (nodes, h, rawSoma) \<Rightarrow> Some (map (\<lambda>n. (n, h)) h)
      | Inl e \<Rightarrow> None)
   = Some [(1, [2]), (2, [3, 4, 5]), (3, []), (4, []), (5, [])]
   \<and> map_option (map (\<lambda>s. (sec_id s, sec_parent s, fst (sec_points s ! 1))))
       (rawSectionsOf (parsePoints threeFork))
     = Some [(0, None, (1, 0, 0)), (1, Some 0, (4, 0, 0)), (2, Some 0, (3, 0, 0)),
             (3, Some 0, (2, 0, 0))]"
  by code_simp

text \<open>
  The ids of the sections of \<open>forkTrace\<close> follow each other from 0; the section of
  point 4 gets its id (1) before the section of point 3 (4), and below it the section
  of point 6 (2) before the section of point 5 (3). Each entry is the id of a section,
  its parent and the position of its second point, the point the section was started
  from.
\<close>

theorem section_ids_depth_first_reversed_witness:
  "map_option (map (\<lambda>s. (sec_id s, sec_parent s, fst (sec_points s ! 1))))
     (rawSectionsOf (TreeNodeCollection SWC_TYPES_SOMA forkTrace))
   = Some [(0, None, (1, 0, 0)), (1, Some 0, (3, 0, 0)), (2, Some 1, (5, 0, 0)),
           (3, Some 1, (4, 0, 0)), (4, Some 0, (2, 0, 0))]
   \<and> numbered (the (rawSectionsOf (TreeNodeCollection SWC_TYPES_SOMA forkTrace)))"
proof -
  obtain secs where s: "rawSectionsOf (TreeNodeCollection SWC_TYPES_SOMA forkTrace) = Some secs"
    and v: "map (\<lambda>s. (sec_id s, sec_parent s, fst (sec_points s ! 1))) secs
            = [(0, None, (1, 0, 0)), (1, Some 0, (3, 0, 0)), (2, Some 1, (5, 0, 0)),
               (3, Some 1, (4, 0, 0)), (4, Some 0, (2, 0, 0))]"
  proof -
    have "map_option (map (\<lambda>s. (sec_id s, sec_parent s, fst (sec_points s ! 1))))
            (rawSectionsOf (TreeNodeCollection SWC_TYPES_SOMA forkTrace))
          = Some [(0, None, (1, 0, 0)), (1, Some 0, (3, 0, 0)), (2, Some 1, (5, 0, 0)),
                  (3, Some 1, (4, 0, 0)), (4, Some 0, (2, 0, 0))]"
      by code_simp
    then show ?thesis using that by (auto simp: map_option_case split: option.splits)
  qed
  from section_ids_depth_first_reversed [OF s] have "numbered secs" by blast
  with s v show ?thesis by simp
qed

end
